theory Spec2Isabelle
  imports Complex_Main "HOL-Library.Word"
begin

section \<open>Lane invasion sensor: data model\<close>

text \<open>
  The development embeds \<^verbatim>\<open>LaneInvasionSensor.cpp\<close> of LibCarla's client: the static
  function \<^verbatim>\<open>Rotate\<close>, the class \<^verbatim>\<open>LaneInvasionCallback\<close> (\<^verbatim>\<open>Tick\<close>, \<^verbatim>\<open>MakeBounds\<close>)
  and \<^verbatim>\<open>LaneInvasionSensor::Listen\<close> / \<^verbatim>\<open>Stop\<close>.

  Numbers: \<^verbatim>\<open>size_t\<close> is \<open>64 word\<close> and \<^verbatim>\<open>ActorId\<close> is \<open>32 word\<close>. A \<^verbatim>\<open>float\<close> is
  idealised as a \<open>real\<close>: rounding is not modelled. Of the arithmetic, the theorems about
  \<^verbatim>\<open>Tick\<close> use only which corner displacements are below the threshold; the closed theorems
  take integer coordinates and the yaw angles 0 and 90.
\<close>

type_synonym size_t = "64 word"
type_synonym ActorId = "32 word"

text \<open>
  Modelled from the spec: \<^verbatim>\<open>geom::Location\<close> (a \<^verbatim>\<open>geom::Vector3D\<close>), its \<^verbatim>\<open>operator+\<close>,
  \<^verbatim>\<open>operator-\<close> and \<^verbatim>\<open>Length()\<close>, which are declared in headers outside the source file.
  The spec calls the value of \<^verbatim>\<open>(a - b).Length()\<close> the Euclidean distance of the two
  points.
\<close>

record Location =
  loc_x :: real
  loc_y :: real
  loc_z :: real

type_synonym Vector3D = Location

definition loc_add :: "Location \<Rightarrow> Location \<Rightarrow> Location" where
  "loc_add a b = \<lparr>loc_x = loc_x a + loc_x b, loc_y = loc_y a + loc_y b, loc_z = loc_z a + loc_z b\<rparr>"

definition loc_sub :: "Location \<Rightarrow> Location \<Rightarrow> Location" where
  "loc_sub a b = \<lparr>loc_x = loc_x a - loc_x b, loc_y = loc_y a - loc_y b, loc_z = loc_z a - loc_z b\<rparr>"

definition Length :: "Location \<Rightarrow> real" where
  "Length v = sqrt (loc_x v * loc_x v + loc_y v * loc_y v + loc_z v * loc_z v)"

text \<open>
  Modelled from the spec: the transform (a location and an orientation whose yaw is in
  degrees) and the bounding box (a local centre offset and half extents).
\<close>

record Rotation =
  pitch :: real
  yaw :: real
  roll :: real

record Transform =
  location :: Location
  rotation :: Rotation

record BoundingBox =
  box_location :: Location
  extent :: Vector3D

text \<open>
  Modelled from the spec: the world snapshot gives the frame number and the elapsed
  seconds of its timestamp, and \<^verbatim>\<open>Find\<close> gives the state of an actor when the snapshot
  holds it.
\<close>

record Timestamp =
  ts_frame :: size_t
  elapsed_seconds :: real

record ActorSnapshot =
  transform :: Transform

record WorldSnapshot =
  timestamp :: Timestamp
  actors :: "ActorId \<rightharpoonup> ActorSnapshot"

definition GetTimestamp :: "WorldSnapshot \<Rightarrow> Timestamp" where
  "GetTimestamp snapshot = timestamp snapshot"

definition GetFrame :: "WorldSnapshot \<Rightarrow> size_t" where
  "GetFrame snapshot = ts_frame (GetTimestamp snapshot)"

definition Find :: "WorldSnapshot \<Rightarrow> ActorId \<Rightarrow> ActorSnapshot option" where
  "Find snapshot actor_id = actors snapshot actor_id"

text \<open>
  \<^verbatim>\<open>struct Bounds { size_t frame; std::array<geom::Location, 4u> corners; }\<close>. The
  array of four corners is a value with exactly four components; \<open>corner cs i\<close> is
  \<^verbatim>\<open>cs[i]\<close> for the indices 0 to 3, the only ones the loops of \<^verbatim>\<open>Tick\<close> use.
\<close>

datatype Corners = Corners Location Location Location Location

fun corner :: "Corners \<Rightarrow> nat \<Rightarrow> Location" where
  "corner (Corners c0 c1 c2 c3) i =
     (if i = 0 then c0 else if i = 1 then c1 else if i = 2 then c2 else c3)"

record Bounds =
  frame :: size_t
  corners :: Corners

text \<open>
  The lane invasion event built in \<^verbatim>\<open>Tick\<close>, with the five constructor arguments in the
  order of the call. A lane marking is opaque: the type variable \<open>'m\<close>.
\<close>

record 'm LaneInvasionEvent =
  ev_frame :: size_t
  ev_timestamp :: real
  ev_transform :: Transform
  ev_parent :: ActorId
  crossed_lane_markings :: "'m list"

text \<open>
  What a call of the user callback can do besides returning: throw an object of a class
  derived from \<^verbatim>\<open>std::exception\<close> (with its \<^verbatim>\<open>what()\<close>), or throw anything else.
\<close>

datatype exn = StdException string | NonStdException

text \<open>
  The immutable members of \<^verbatim>\<open>LaneInvasionCallback\<close>: \<^verbatim>\<open>_parent\<close>,
  \<^verbatim>\<open>_parent_bounding_box\<close>, \<^verbatim>\<open>_map\<close> (only its \<^verbatim>\<open>CalculateCrossedLanes\<close> is used: the
  geometry collaborator, a parameter) and \<^verbatim>\<open>_callback\<close> (\<open>None\<close> when the call returns,
  \<open>Some e\<close> when it throws \<open>e\<close>).
\<close>

record 'm LaneInvasionCallback =
  parent :: ActorId
  parent_bounding_box :: BoundingBox
  CalculateCrossedLanes :: "Location \<Rightarrow> Location \<Rightarrow> 'm list"
  callback :: "'m LaneInvasionEvent \<Rightarrow> exn option"

section \<open>The frame store\<close>

text \<open>
  The mutable member \<^verbatim>\<open>_bounds\<close> is an \<^verbatim>\<open>AtomicSharedPtr<const Bounds>\<close>. Shared
  pointers are compared by identity, so the objects live in an explicit store: \<open>heap\<close>
  lists the \<^verbatim>\<open>Bounds\<close> objects made so far, the address of an object is its index, and
  \<open>bounds\<close> is the slot (\<open>None\<close> is \<^verbatim>\<open>nullptr\<close>). Objects are immutable and the model
  never frees one.
\<close>

record store =
  heap :: "Bounds list"
  bounds :: "nat option"

definition empty_store :: store where
  "empty_store = \<lparr>heap = [], bounds = None\<rparr>"

definition make_shared :: "Bounds \<Rightarrow> store \<Rightarrow> nat \<times> store" where
  "make_shared b st = (length (heap st), st\<lparr>heap := heap st @ [b]\<rparr>)"

text \<open>
  Modelled from the spec: the two operations of the frame store, which
  \<^verbatim>\<open>AtomicSharedPtr.h\<close> (outside the source file) implements. \<open>load\<close> returns the
  committed pointer; \<open>compare_exchange\<close> replaces the slot's contents with the candidate
  iff they still equal the expected pointer (identity comparison), returns whether it did,
  and on failure gives the caller the current contents as its new expected value.
\<close>

definition load :: "store \<Rightarrow> nat option" where
  "load st = bounds st"

definition compare_exchange :: "store \<Rightarrow> nat option \<Rightarrow> nat option \<Rightarrow> bool \<times> nat option \<times> store" where
  "compare_exchange st expected desired =
     (if bounds st = expected then (True, expected, st\<lparr>bounds := desired\<rparr>)
      else (False, bounds st, st))"

text \<open>
  Other threads may run \<^verbatim>\<open>Tick\<close> on the same callback object. All they do to the shared
  slot is commit a \<^verbatim>\<open>Bounds\<close> object of their own, so what a tick sees of them is a
  schedule: for each of its compare-and-swap attempts, in order, whether another thread
  committed an object since the tick last read the slot. A schedule is finite, and one
  that has run out means no further interference, so \<open>[]\<close> is the sequential execution
  and the retry loop ends once the other threads have stopped committing.
\<close>

datatype interference = Quiet | Commits Bounds

fun interfere :: "interference \<Rightarrow> store \<Rightarrow> store" where
  "interfere Quiet st = st"
| "interfere (Commits b) st = \<lparr>heap = heap st @ [b], bounds = Some (length (heap st))\<rparr>"

fun next_interference :: "interference list \<Rightarrow> interference" where
  "next_interference [] = Quiet"
| "next_interference (e # es) = e"

text \<open>
  A slot that points into the heap. The empty store satisfies it and every tick keeps it
  (\<open>wf_empty_store\<close>, \<open>Tick_preserves_wf_store\<close>).
\<close>

definition wf_store :: "store \<Rightarrow> bool" where
  "wf_store st = (case bounds st of None \<Rightarrow> True | Some a \<Rightarrow> a < length (heap st))"

section \<open>Rotate and MakeBounds\<close>

text \<open>
  \<^verbatim>\<open>Pi<float>()\<close> is \<open>pi\<close>; \<^verbatim>\<open>yaw *= Pi / 180\<close> converts degrees to radians.
\<close>

definition Rotate :: "real \<Rightarrow> Location \<Rightarrow> Location" where
  "Rotate yaw_deg loc =
     (let yaw_rad = yaw_deg * (pi / 180);
          c = cos yaw_rad;
          s = sin yaw_rad
      in \<lparr>loc_x = c * loc_x loc - s * loc_y loc,
          loc_y = s * loc_x loc + c * loc_y loc,
          loc_z = loc_z loc\<rparr>)"

definition MakeBounds :: "'m LaneInvasionCallback \<Rightarrow> size_t \<Rightarrow> Transform \<Rightarrow> Bounds" where
  "MakeBounds cb frm tf =
     (let box = parent_bounding_box cb;
          loc = loc_add (location tf) (box_location box);
          yw = yaw (rotation tf)
      in \<lparr>frame = frm,
          corners = Corners
            (loc_add loc (Rotate yw \<lparr>loc_x = loc_x (extent box), loc_y = loc_y (extent box), loc_z = 0\<rparr>))
            (loc_add loc (Rotate yw \<lparr>loc_x = - loc_x (extent box), loc_y = loc_y (extent box), loc_z = 0\<rparr>))
            (loc_add loc (Rotate yw \<lparr>loc_x = loc_x (extent box), loc_y = - loc_y (extent box), loc_z = 0\<rparr>))
            (loc_add loc (Rotate yw \<lparr>loc_x = - loc_x (extent box), loc_y = - loc_y (extent box), loc_z = 0\<rparr>))\<rparr>)"

section \<open>LaneInvasionCallback::Tick\<close>

text \<open>
  \<^verbatim>\<open>10.0f * std::numeric_limits<float>::epsilon()\<close>; the machine epsilon of a \<^verbatim>\<open>float\<close>
  is \<open>1 / 2 ^ 23\<close>.
\<close>

definition float_epsilon :: real where
  "float_epsilon = 1 / 2 ^ 23"

definition distance_threshold :: real where
  "distance_threshold = 10 * float_epsilon"

text \<open>
  How a call of \<^verbatim>\<open>Tick\<close> ends: it returns, the user callback threw and nothing in \<^verbatim>\<open>Tick\<close>
  catches it, or \<^verbatim>\<open>prev\<close> is dereferenced while null (undefined behaviour in the source;
  \<open>Tick_never_dereferences_null\<close> shows that no execution reaches it).
\<close>

datatype status = Returned | Thrown exn | NullDereference

text \<open>
  Lines 105 to 110, the loop
  \<^verbatim>\<open>do { if (prev->frame >= next->frame) return; } while (!_bounds.compare_exchange(&prev, next));\<close>
  It ends by leaving \<^verbatim>\<open>Tick\<close> (\<open>Aborted\<close>) or with the swap done; then \<^verbatim>\<open>prev\<close> is the
  pointer that was replaced (\<open>Committed prev\<close>).
\<close>

datatype loop_result = Aborted | Committed nat | NullPrev

function commit_loop :: "nat \<Rightarrow> nat \<Rightarrow> interference list \<Rightarrow> store \<Rightarrow> loop_result \<times> store" where
  "commit_loop prev nxt env st =
     (if frame (heap st ! prev) \<ge> frame (heap st ! nxt) then (Aborted, st)
      else
        (case compare_exchange (interfere (next_interference env) st) (Some prev) (Some nxt) of
           (True, _, st') \<Rightarrow> (Committed prev, st')
         | (False, None, st') \<Rightarrow> (NullPrev, st')
         | (False, Some prev', st') \<Rightarrow> commit_loop prev' nxt (tl env) st'))"
  by pat_completeness auto
termination
  apply (relation "measure (\<lambda>(prev, nxt, env, st). 2 * length env + (if bounds st = Some prev then 0 else 1))")
   apply simp
  apply (case_tac env)
   apply (auto simp: compare_exchange_def split: if_splits)
  done

text \<open>
  Lines 112 to 126: the crossed lanes of the four corner segments, concatenated in the
  order of the corner index, and the call of the user callback when there is at least one.
  The result is the event handed to the callback, if it was called, and how the call ended.
\<close>

definition crossed_lanes :: "'m LaneInvasionCallback \<Rightarrow> Bounds \<Rightarrow> Bounds \<Rightarrow> 'm list" where
  "crossed_lanes cb prev_b next_b =
     concat (map (\<lambda>i. CalculateCrossedLanes cb (corner (corners prev_b) i) (corner (corners next_b) i))
               [0..<4])"

definition Tick_crossing ::
  "'m LaneInvasionCallback \<Rightarrow> WorldSnapshot \<Rightarrow> ActorSnapshot \<Rightarrow> nat \<Rightarrow> nat \<Rightarrow> store
     \<Rightarrow> store \<times> 'm LaneInvasionEvent option \<times> status" where
  "Tick_crossing cb snapshot parent_state prev nxt st =
     (let crossed = crossed_lanes cb (heap st ! prev) (heap st ! nxt)
      in if crossed \<noteq> [] then
           (let event = \<lparr>ev_frame = ts_frame (GetTimestamp snapshot),
                         ev_timestamp = elapsed_seconds (GetTimestamp snapshot),
                         ev_transform = transform parent_state,
                         ev_parent = parent cb,
                         crossed_lane_markings = crossed\<rparr>
            in (st, Some event,
                case callback cb event of None \<Rightarrow> Returned | Some e \<Rightarrow> Thrown e))
         else (st, None, Returned))"

text \<open>Lines 105 to 126: the commit loop, then the crossing computation.\<close>

definition Tick_commit ::
  "'m LaneInvasionCallback \<Rightarrow> WorldSnapshot \<Rightarrow> ActorSnapshot \<Rightarrow> nat \<Rightarrow> nat \<Rightarrow> interference list
     \<Rightarrow> store \<Rightarrow> store \<times> 'm LaneInvasionEvent option \<times> status" where
  "Tick_commit cb snapshot parent_state prev nxt env st =
     (case commit_loop prev nxt env st of
        (Aborted, st') \<Rightarrow> (st', None, Returned)
      | (NullPrev, st') \<Rightarrow> (st', None, NullDereference)
      | (Committed prev', st') \<Rightarrow> Tick_crossing cb snapshot parent_state prev' nxt st')"

text \<open>
  Lines 97 to 103: the loop over the four corners leaves \<^verbatim>\<open>Tick\<close> at the first corner
  whose displacement is below the threshold.
\<close>

definition displacement :: "Bounds \<Rightarrow> Bounds \<Rightarrow> nat \<Rightarrow> real" where
  "displacement prev_b next_b i = Length (loc_sub (corner (corners next_b) i) (corner (corners prev_b) i))"

definition some_corner_below_threshold :: "Bounds \<Rightarrow> Bounds \<Rightarrow> bool" where
  "some_corner_below_threshold prev_b next_b =
     list_ex (\<lambda>i. displacement prev_b next_b i < distance_threshold) [0..<4]"

definition Tick_moved ::
  "'m LaneInvasionCallback \<Rightarrow> WorldSnapshot \<Rightarrow> ActorSnapshot \<Rightarrow> nat \<Rightarrow> nat \<Rightarrow> interference list
     \<Rightarrow> store \<Rightarrow> store \<times> 'm LaneInvasionEvent option \<times> status" where
  "Tick_moved cb snapshot parent_state prev nxt env st =
     (if some_corner_below_threshold (heap st ! prev) (heap st ! nxt) then (st, None, Returned)
      else Tick_commit cb snapshot parent_state prev nxt env st)"

text \<open>
  \<^verbatim>\<open>Tick\<close>, lines 82 to 96, continued by \<open>Tick_moved\<close>. The schedule \<open>env\<close> is what the
  other threads do between the load of line 90 and each compare-and-swap of this call.
  In \<^verbatim>\<open>(prev == nullptr) && _bounds.compare_exchange(&prev, next)\<close> the swap is tried
  only when \<^verbatim>\<open>prev\<close> is null; when it fails, \<^verbatim>\<open>prev\<close> holds the slot's contents.
\<close>

definition Tick ::
  "'m LaneInvasionCallback \<Rightarrow> WorldSnapshot \<Rightarrow> interference list \<Rightarrow> store
     \<Rightarrow> store \<times> 'm LaneInvasionEvent option \<times> status" where
  "Tick cb snapshot env st =
     (case Find snapshot (parent cb) of
        None \<Rightarrow> (st, None, Returned)
      | Some parent_state \<Rightarrow>
          (case make_shared (MakeBounds cb (GetFrame snapshot) (transform parent_state)) st of
             (nxt, st1) \<Rightarrow>
               (case load st1 of
                  None \<Rightarrow>
                    (case compare_exchange (interfere (next_interference env) st1) None (Some nxt) of
                       (True, _, st2) \<Rightarrow> (st2, None, Returned)
                     | (False, None, st2) \<Rightarrow> (st2, None, NullDereference)
                     | (False, Some prev, st2) \<Rightarrow>
                         Tick_moved cb snapshot parent_state prev nxt (tl env) st2)
                | Some prev \<Rightarrow> Tick_moved cb snapshot parent_state prev nxt env st1)))"

section \<open>LaneInvasionSensor::Listen and Stop\<close>

text \<open>
  The handler that \<^verbatim>\<open>Listen\<close> registers (lines 168 to 174):
  \<^verbatim>\<open>try { cb->Tick(snapshot); } catch (const std::exception &e) { log_error("LaneInvasionSensor:", e.what()); }\<close>
  The handler catches what derives from \<^verbatim>\<open>std::exception\<close> and nothing else. A log entry
  is the list of the arguments of one \<^verbatim>\<open>log_error\<close> call.
\<close>

type_synonym log = "string list list"

definition on_tick ::
  "'m LaneInvasionCallback \<Rightarrow> WorldSnapshot \<Rightarrow> interference list \<Rightarrow> store \<times> log
     \<Rightarrow> (store \<times> log) \<times> 'm LaneInvasionEvent option \<times> status" where
  "on_tick cb snapshot env s =
     (case s of (st, lg) \<Rightarrow>
        (case Tick cb snapshot env st of
           (st', ev, Thrown (StdException what)) \<Rightarrow>
             ((st', lg @ [[''LaneInvasionSensor:'', what]]), ev, Returned)
         | (st', ev, stat) \<Rightarrow> ((st', lg), ev, stat)))"

text \<open>
  The sensor: its display id, its parent actor (\<^verbatim>\<open>GetParent()\<close>, which may be null or an
  actor that is not a vehicle) and the member \<^verbatim>\<open>_callback_id\<close>, where 0 means that no
  handler is registered. \<open>as_vehicle\<close> is \<^verbatim>\<open>boost::dynamic_pointer_cast<Vehicle>\<close>.
\<close>

record Vehicle =
  vehicle_id :: ActorId
  vehicle_bounding_box :: BoundingBox

datatype Actor = VehicleActor Vehicle | OtherActor ActorId

record LaneInvasionSensor =
  display_id :: string
  sensor_parent :: "Actor option"
  callback_id :: size_t

fun as_vehicle :: "Actor option \<Rightarrow> Vehicle option" where
  "as_vehicle (Some (VehicleActor v)) = Some v"
| "as_vehicle _ = None"

text \<open>
  Modelled from the spec: the external per-frame scheduler, reached through the episode,
  with \<^verbatim>\<open>register_tick_handler(handler) -> id\<close> and \<^verbatim>\<open>remove_tick_handler(id)\<close>. The
  episode holds the current map and the registered handlers with their ids; a handler is
  given by the callback object its closure holds. Which id the scheduler hands out is its
  own business: it is the parameter \<open>new_id\<close>, and the theorems say what they assume of it.
\<close>

record 'm Episode =
  current_map :: "Location \<Rightarrow> Location \<Rightarrow> 'm list"
  on_tick_callbacks :: "(size_t \<times> 'm LaneInvasionCallback) list"

definition GetCurrentMap :: "'m Episode \<Rightarrow> Location \<Rightarrow> Location \<Rightarrow> 'm list" where
  "GetCurrentMap episode = current_map episode"

definition RegisterOnTickEvent ::
  "'m Episode \<Rightarrow> size_t \<Rightarrow> 'm LaneInvasionCallback \<Rightarrow> size_t \<times> 'm Episode" where
  "RegisterOnTickEvent episode new_id handler =
     (new_id, episode\<lparr>on_tick_callbacks := on_tick_callbacks episode @ [(new_id, handler)]\<rparr>)"

definition RemoveOnTickEvent :: "'m Episode \<Rightarrow> size_t \<Rightarrow> 'm Episode" where
  "RemoveOnTickEvent episode old_id =
     episode\<lparr>on_tick_callbacks := filter (\<lambda>(i, h). i \<noteq> old_id) (on_tick_callbacks episode)\<rparr>"

definition registered_ids :: "'m Episode \<Rightarrow> size_t list" where
  "registered_ids episode = map fst (on_tick_callbacks episode)"

text \<open>
  \<^verbatim>\<open>Listen\<close>, lines 150 to 183, for an episode that \<^verbatim>\<open>GetEpisode().Lock()\<close> returns. The
  constructor of \<^verbatim>\<open>LaneInvasionCallback\<close> takes the id and the bounding box of the
  vehicle, the map and the user callback.
\<close>

definition Listen ::
  "LaneInvasionSensor \<Rightarrow> ('m LaneInvasionEvent \<Rightarrow> exn option) \<Rightarrow> size_t \<Rightarrow> 'm Episode \<Rightarrow> log
     \<Rightarrow> LaneInvasionSensor \<times> 'm Episode \<times> log" where
  "Listen sensor user_callback new_id episode lg =
     (case as_vehicle (sensor_parent sensor) of
        None \<Rightarrow> (sensor, episode, lg @ [[display_id sensor, '': not attached to a vehicle'']])
      | Some vehicle \<Rightarrow>
          (let cb = \<lparr>parent = vehicle_id vehicle,
                     parent_bounding_box = vehicle_bounding_box vehicle,
                     CalculateCrossedLanes = GetCurrentMap episode,
                     callback = user_callback\<rparr>
           in case RegisterOnTickEvent episode new_id cb of
                (registered, episode1) \<Rightarrow>
                  (let previous = callback_id sensor;
                       sensor1 = sensor\<lparr>callback_id := registered\<rparr>
                   in if previous \<noteq> 0 then (sensor1, RemoveOnTickEvent episode1 previous, lg)
                      else (sensor1, episode1, lg))))"

text \<open>
  \<^verbatim>\<open>Stop\<close>, lines 186 to 197. \<^verbatim>\<open>GetEpisode().TryLock()\<close> returns the episode or null;
  \<open>alive\<close> says which.
\<close>

definition TryLock :: "bool \<Rightarrow> 'm Episode \<Rightarrow> 'm Episode option" where
  "TryLock alive episode = (if alive then Some episode else None)"

definition Stop :: "LaneInvasionSensor \<Rightarrow> bool \<Rightarrow> 'm Episode \<Rightarrow> LaneInvasionSensor \<times> 'm Episode" where
  "Stop sensor alive episode =
     (let previous = callback_id sensor;
          sensor1 = sensor\<lparr>callback_id := 0\<rparr>
      in case TryLock alive episode of
           Some locked \<Rightarrow>
             if previous \<noteq> 0 then (sensor1, RemoveOnTickEvent locked previous) else (sensor1, episode)
         | None \<Rightarrow> (sensor1, episode))"

section \<open>Runs, and the specification's wording of the two pure functions\<close>

text \<open>
  The store after the other threads have done the first \<open>k\<close> steps of a schedule, and the
  stores after each of a sequence of ticks run one after the other.
\<close>

definition interfere_all :: "interference list \<Rightarrow> store \<Rightarrow> store" where
  "interfere_all es st = fold interfere es st"

fun run_ticks :: "'m LaneInvasionCallback \<Rightarrow> WorldSnapshot list \<Rightarrow> store \<Rightarrow> store list" where
  "run_ticks cb [] st = []"
| "run_ticks cb (snapshot # snapshots) st =
     fst (Tick cb snapshot [] st) # run_ticks cb snapshots (fst (Tick cb snapshot [] st))"

text \<open>
  \<open>newer_or_same s s'\<close>: the snapshot committed in \<open>s'\<close> is the very object committed in
  \<open>s\<close>, or one with a strictly greater frame number (nothing is asked when \<open>s\<close> holds
  none).
\<close>

definition newer_or_same :: "store \<Rightarrow> store \<Rightarrow> bool" where
  "newer_or_same s s' =
     (case bounds s of
        None \<Rightarrow> True
      | Some p \<Rightarrow>
          (case bounds s' of
             None \<Rightarrow> False
           | Some n \<Rightarrow> (n = p \<and> heap s' ! n = heap s ! p) \<or> frame (heap s ! p) < frame (heap s' ! n)))"

text \<open>
  The specification's wording of the corner projector: degrees to radians, the standard
  2D rotation matrix applied to the (x, y) components, z passed through.
\<close>

definition radians :: "real \<Rightarrow> real" where
  "radians deg = deg * pi / 180"

definition rotation_matrix :: "real \<Rightarrow> (real \<times> real) \<times> (real \<times> real)" where
  "rotation_matrix a = ((cos a, - sin a), (sin a, cos a))"

definition mat_vec :: "(real \<times> real) \<times> (real \<times> real) \<Rightarrow> real \<times> real \<Rightarrow> real \<times> real" where
  "mat_vec m v = (case m of ((a, b), (c, d)) \<Rightarrow> (case v of (vx, vy) \<Rightarrow> (a * vx + b * vy, c * vx + d * vy)))"

definition rotate_spec :: "real \<Rightarrow> Location \<Rightarrow> Location" where
  "rotate_spec yaw_degrees offset =
     (case mat_vec (rotation_matrix (radians yaw_degrees)) (loc_x offset, loc_y offset) of
        (wx, wy) \<Rightarrow> \<lparr>loc_x = wx, loc_y = wy, loc_z = loc_z offset\<rparr>)"

text \<open>
  The specification's wording of the snapshot builder: the centre is
  \<^verbatim>\<open>transform.location + bounding_box.center_offset\<close>, and the corners are
  \<^verbatim>\<open>center + rotate(transform.yaw, (\<plusminus>extent_x, \<plusminus>extent_y, 0))\<close> in the order +x+y, -x+y, +x-y,
  -x-y.
\<close>

definition spec_corner :: "Transform \<Rightarrow> BoundingBox \<Rightarrow> real \<Rightarrow> real \<Rightarrow> Location" where
  "spec_corner tf box sx sy =
     loc_add (loc_add (location tf) (box_location box))
       (rotate_spec (yaw (rotation tf))
          \<lparr>loc_x = sx * loc_x (extent box), loc_y = sy * loc_y (extent box), loc_z = 0\<rparr>)"

definition build_spec :: "size_t \<Rightarrow> Transform \<Rightarrow> BoundingBox \<Rightarrow> Bounds" where
  "build_spec frm tf box =
     \<lparr>frame = frm,
      corners = Corners (spec_corner tf box 1 1) (spec_corner tf box (- 1) 1)
                        (spec_corner tf box 1 (- 1)) (spec_corner tf box (- 1) (- 1))\<rparr>"

text \<open>
  Sequences of calls on the scheduler of one episode that stays alive: \<^verbatim>\<open>listen()\<close> and
  \<^verbatim>\<open>stop()\<close> of the sensor, and registrations and removals by other detectors. A
  registration comes with the id the scheduler hands out for it. \<open>run_others\<close> is what the
  other detectors alone make of the episode.
\<close>

datatype 'm sensor_op =
  DoListen "'m LaneInvasionEvent \<Rightarrow> exn option" size_t
| DoStop
| OtherRegisters size_t "'m LaneInvasionCallback"
| OtherRemoves size_t

fun listen_ids :: "'m sensor_op list \<Rightarrow> size_t list" where
  "listen_ids [] = []"
| "listen_ids (DoListen f i # ops) = i # listen_ids ops"
| "listen_ids (op # ops) = listen_ids ops"

fun other_ids :: "'m sensor_op list \<Rightarrow> size_t list" where
  "other_ids [] = []"
| "other_ids (OtherRegisters i h # ops) = i # other_ids ops"
| "other_ids (OtherRemoves i # ops) = i # other_ids ops"
| "other_ids (op # ops) = other_ids ops"

fun run_ops ::
  "'m sensor_op list \<Rightarrow> LaneInvasionSensor \<times> 'm Episode \<times> log \<Rightarrow> LaneInvasionSensor \<times> 'm Episode \<times> log" where
  "run_ops [] s = s"
| "run_ops (DoListen f i # ops) (sensor, episode, lg) = run_ops ops (Listen sensor f i episode lg)"
| "run_ops (DoStop # ops) (sensor, episode, lg) =
     (case Stop sensor True episode of (sensor1, episode1) \<Rightarrow> run_ops ops (sensor1, episode1, lg))"
| "run_ops (OtherRegisters i h # ops) (sensor, episode, lg) =
     run_ops ops (sensor, snd (RegisterOnTickEvent episode i h), lg)"
| "run_ops (OtherRemoves i # ops) (sensor, episode, lg) =
     run_ops ops (sensor, RemoveOnTickEvent episode i, lg)"

fun run_others :: "'m sensor_op list \<Rightarrow> 'm Episode \<Rightarrow> 'm Episode" where
  "run_others [] episode = episode"
| "run_others (OtherRegisters i h # ops) episode = run_others ops (snd (RegisterOnTickEvent episode i h))"
| "run_others (OtherRemoves i # ops) episode = run_others ops (RemoveOnTickEvent episode i)"
| "run_others (op # ops) episode = run_others ops episode"

text \<open>The registration the sensor itself accounts for: none when \<^verbatim>\<open>_callback_id\<close> is 0.\<close>

definition own_registration :: "LaneInvasionSensor \<Rightarrow> size_t list" where
  "own_registration sensor = (if callback_id sensor = 0 then [] else [callback_id sensor])"

section \<open>Concrete inputs\<close>

text \<open>
  A vehicle with actor id 7 whose bounding box is centred on it and has half extents 1;
  the callback object takes the geometry collaborator and the user callback as arguments.
  \<open>snapshot_at f yw px py\<close> is the world snapshot of frame \<open>f\<close> in which the vehicle is at
  \<open>(px, py, 0)\<close> with yaw \<open>yw\<close>; \<open>snapshot_without f\<close> holds no actor.
\<close>

definition unit_box :: BoundingBox where
  "unit_box = \<lparr>box_location = \<lparr>loc_x = 0, loc_y = 0, loc_z = 0\<rparr>,
               extent = \<lparr>loc_x = 1, loc_y = 1, loc_z = 1\<rparr>\<rparr>"

definition callback_with ::
  "(Location \<Rightarrow> Location \<Rightarrow> string list) \<Rightarrow> (string LaneInvasionEvent \<Rightarrow> exn option)
     \<Rightarrow> string LaneInvasionCallback" where
  "callback_with lanes user_callback =
     \<lparr>parent = 7, parent_bounding_box = unit_box, CalculateCrossedLanes = lanes,
      callback = user_callback\<rparr>"

definition pose :: "real \<Rightarrow> real \<Rightarrow> real \<Rightarrow> Transform" where
  "pose yw px py = \<lparr>location = \<lparr>loc_x = px, loc_y = py, loc_z = 0\<rparr>,
                    rotation = \<lparr>pitch = 0, yaw = yw, roll = 0\<rparr>\<rparr>"

definition snapshot_at :: "size_t \<Rightarrow> real \<Rightarrow> real \<Rightarrow> real \<Rightarrow> WorldSnapshot" where
  "snapshot_at f yw px py =
     \<lparr>timestamp = \<lparr>ts_frame = f, elapsed_seconds = 0\<rparr>,
      actors = [7 \<mapsto> \<lparr>transform = pose yw px py\<rparr>]\<rparr>"

definition snapshot_without :: "size_t \<Rightarrow> WorldSnapshot" where
  "snapshot_without f = \<lparr>timestamp = \<lparr>ts_frame = f, elapsed_seconds = 0\<rparr>, actors = Map.empty\<rparr>"

text \<open>
  The footprint of the vehicle at \<open>(px, py, 0)\<close> with yaw 0, and with yaw 90 (a quarter
  turn to the left).
\<close>

definition square_at :: "size_t \<Rightarrow> real \<Rightarrow> real \<Rightarrow> Bounds" where
  "square_at f px py =
     \<lparr>frame = f,
      corners = Corners \<lparr>loc_x = px + 1, loc_y = py + 1, loc_z = 0\<rparr> \<lparr>loc_x = px - 1, loc_y = py + 1, loc_z = 0\<rparr>
                        \<lparr>loc_x = px + 1, loc_y = py - 1, loc_z = 0\<rparr> \<lparr>loc_x = px - 1, loc_y = py - 1, loc_z = 0\<rparr>\<rparr>"

definition turned_square_at :: "size_t \<Rightarrow> real \<Rightarrow> real \<Rightarrow> Bounds" where
  "turned_square_at f px py =
     \<lparr>frame = f,
      corners = Corners \<lparr>loc_x = px - 1, loc_y = py + 1, loc_z = 0\<rparr> \<lparr>loc_x = px - 1, loc_y = py - 1, loc_z = 0\<rparr>
                        \<lparr>loc_x = px + 1, loc_y = py + 1, loc_z = 0\<rparr> \<lparr>loc_x = px + 1, loc_y = py - 1, loc_z = 0\<rparr>\<rparr>"

text \<open>Geometry collaborators and user callbacks of the examples.\<close>

definition always_crossing :: "Location \<Rightarrow> Location \<Rightarrow> string list" where
  "always_crossing a b = (if a = b then [''still''] else [''M''])"

definition never_crossing :: "Location \<Rightarrow> Location \<Rightarrow> string list" where
  "never_crossing a b = []"

definition crossing_only :: "Location \<Rightarrow> Location \<Rightarrow> Location \<Rightarrow> Location \<Rightarrow> string list" where
  "crossing_only p q a b = (if a = p \<and> b = q then [''M''] else [])"

definition returns :: "string LaneInvasionEvent \<Rightarrow> exn option" where
  "returns event = None"

definition throws :: "exn \<Rightarrow> string LaneInvasionEvent \<Rightarrow> exn option" where
  "throws e event = Some e"

definition vehicle_sensor :: "size_t \<Rightarrow> LaneInvasionSensor" where
  "vehicle_sensor i =
     \<lparr>display_id = ''sensor.other.lane_invasion'',
      sensor_parent = Some (VehicleActor \<lparr>vehicle_id = 7, vehicle_bounding_box = unit_box\<rparr>),
      callback_id = i\<rparr>"

definition episode_with :: "(size_t \<times> string LaneInvasionCallback) list \<Rightarrow> string Episode" where
  "episode_with handlers = \<lparr>current_map = never_crossing, on_tick_callbacks = handlers\<rparr>"

section \<open>Properties of the frame store and of the commit loop\<close>

lemma upt4: "[0..<4] = [0, 1, 2, 3]" by (simp add: upt_rec)

lemma interfere_all_Nil [simp]: "interfere_all [] st = st"
  by (simp add: interfere_all_def)

lemma interfere_all_Cons [simp]: "interfere_all (e # es) st = interfere_all es (interfere e st)"
  by (simp add: interfere_all_def)

lemma wf_interfere: "wf_store st \<Longrightarrow> wf_store (interfere e st)"
  by (cases e) (simp_all add: wf_store_def)

lemma heap_interfere: "a < length (heap st) \<Longrightarrow> a < length (heap (interfere e st)) \<and> heap (interfere e st) ! a = heap st ! a"
  by (cases e) (simp_all add: nth_append)

lemma bounds_interfere: "bounds st \<noteq> None \<Longrightarrow> bounds (interfere e st) \<noteq> None"
  by (cases e) simp_all

lemma interfere_next_tl: "interfere_all (take (Suc k) env) st = interfere_all (take k (tl env)) (interfere (next_interference env) st)"
  by (cases env) simp_all

lemma commit_loop_result:
  assumes "wf_store st" "prev < length (heap st)" "nxt < length (heap st)" "bounds st \<noteq> None"
  shows "\<exists>k. (let sb = interfere_all (take k env) st in
           commit_loop prev nxt env st = (Aborted, sb) \<or>
           (\<exists>p. commit_loop prev nxt env st = (Committed p, sb\<lparr>bounds := Some nxt\<rparr>) \<and> bounds sb = Some p \<and> p < length (heap sb) \<and> 
               frame (heap sb ! p) < frame (heap sb ! nxt) \<and> heap sb ! nxt = heap st ! nxt \<and> length (heap st) \<le> length (heap sb)))"
  using assms
proof (induction prev nxt env st rule: commit_loop.induct)
  case (1 prev nxt env st)
  let ?st1 = "interfere (next_interference env) st"
  show ?case
  proof (cases "frame (heap st ! nxt) \<le> frame (heap st ! prev)")
    case True
    then have "commit_loop prev nxt env st = (Aborted, interfere_all (take 0 env) st)" by simp
    then show ?thesis unfolding Let_def by blast
  next
    case stale: False
    have wf1: "wf_store ?st1" using "1.prems"(1) by (rule wf_interfere)
    have h1: "prev < length (heap ?st1)" "heap ?st1 ! prev = heap st ! prev"
      "nxt < length (heap ?st1)" "heap ?st1 ! nxt = heap st ! nxt"
      using heap_interfere "1.prems" by blast+
    have b1: "bounds ?st1 \<noteq> None" using "1.prems"(4) by (rule bounds_interfere)
    have len1: "length (heap st) \<le> length (heap ?st1)" by (cases "next_interference env") simp_all
    show ?thesis
    proof (cases "bounds ?st1 = Some prev")
      case True
      then have "commit_loop prev nxt env st = (Committed prev, ?st1\<lparr>bounds := Some nxt\<rparr>)"
        using stale by (simp add: compare_exchange_def)
      moreover have "?st1 = interfere_all (take (Suc 0) env) st" by (cases env) simp_all
      ultimately show ?thesis unfolding Let_def using True h1 stale len1
        by (metis not_le)
    next
      case False
      then obtain p' where p': "bounds ?st1 = Some p'" "p' \<noteq> prev" using b1 by auto
      have ce: "compare_exchange ?st1 (Some prev) (Some nxt) = (False, Some p', ?st1)"
        using p' by (simp add: compare_exchange_def)
      have rec: "commit_loop prev nxt env st = commit_loop p' nxt (tl env) ?st1"
        using stale ce by simp
      have p'len: "p' < length (heap ?st1)" using wf1 p' by (simp add: wf_store_def)
      from "1.IH"[OF _ ce[symmetric] refl refl refl wf1 p'len h1(3) b1] stale
      obtain k where k: "let sb = interfere_all (take k (tl env)) ?st1 in
           commit_loop p' nxt (tl env) ?st1 = (Aborted, sb) \<or>
           (\<exists>p. commit_loop p' nxt (tl env) ?st1 = (Committed p, sb\<lparr>bounds := Some nxt\<rparr>) \<and> bounds sb = Some p \<and> p < length (heap sb) \<and> 
               frame (heap sb ! p) < frame (heap sb ! nxt) \<and> heap sb ! nxt = heap ?st1 ! nxt \<and> length (heap ?st1) \<le> length (heap sb))"
        by (auto simp: not_le)
      show ?thesis
        apply (rule exI[of _ "Suc k"])
        using k len1 unfolding rec interfere_next_tl Let_def h1(4) by auto
    qed
  qed
qed

lemma fst_Tick_crossing: "fst (Tick_crossing cb snapshot ps p n st) = st"
  by (simp add: Tick_crossing_def Let_def)

lemma Tick_crossing_not_null: "snd (snd (Tick_crossing cb snapshot ps p n st)) \<noteq> NullDereference"
  by (simp add: Tick_crossing_def Let_def split: option.splits)

lemma Tick_moved_effect:
  assumes "wf_store st" "prev < length (heap st)" "nxt < length (heap st)" "bounds st \<noteq> None"
  shows "\<exists>k. (let sb = interfere_all (take k env) st in
           Tick_moved cb snapshot ps prev nxt env st = (sb, None, Returned) \<or>
           (\<exists>p. bounds sb = Some p \<and> p < length (heap sb) \<and>
               frame (heap sb ! p) < frame (heap sb ! nxt) \<and> heap sb ! nxt = heap st ! nxt \<and>
               Tick_moved cb snapshot ps prev nxt env st =
                 Tick_crossing cb snapshot ps p nxt (sb\<lparr>bounds := Some nxt\<rparr>)))"
proof (cases "some_corner_below_threshold (heap st ! prev) (heap st ! nxt)")
  case True
  then have "Tick_moved cb snapshot ps prev nxt env st = (interfere_all (take 0 env) st, None, Returned)"
    by (simp add: Tick_moved_def)
  then show ?thesis unfolding Let_def by blast
next
  case False
  from commit_loop_result[OF assms, of env] obtain k where
    k: "commit_loop prev nxt env st = (Aborted, interfere_all (take k env) st) \<or>
        (\<exists>p. commit_loop prev nxt env st = (Committed p, (interfere_all (take k env) st)\<lparr>bounds := Some nxt\<rparr>) \<and>
           bounds (interfere_all (take k env) st) = Some p \<and> p < length (heap (interfere_all (take k env) st)) \<and> 
           frame (heap (interfere_all (take k env) st) ! p) < frame (heap (interfere_all (take k env) st) ! nxt) \<and>
           heap (interfere_all (take k env) st) ! nxt = heap st ! nxt \<and>
           length (heap st) \<le> length (heap (interfere_all (take k env) st)))"
    unfolding Let_def by blast
  show ?thesis
    apply (rule exI[of _ k])
    using k False unfolding Let_def by (auto simp: Tick_moved_def Tick_commit_def)
qed

lemma Tick_effect:
  assumes wf: "wf_store st" and found: "Find snapshot (parent cb) = Some ps"
  shows "\<exists>k. (let nb = MakeBounds cb (GetFrame snapshot) (transform ps);
                  n = length (heap st);
                  sb = interfere_all (take k env) (st\<lparr>heap := heap st @ [nb]\<rparr>) in
           heap sb ! n = nb \<and> n < length (heap sb) \<and>
           (Tick cb snapshot env st = (sb, None, Returned) \<or>
            (bounds sb = None \<and> Tick cb snapshot env st = (sb\<lparr>bounds := Some n\<rparr>, None, Returned)) \<or>
            (\<exists>p. bounds sb = Some p \<and> p < length (heap sb) \<and> frame (heap sb ! p) < frame nb \<and>
               Tick cb snapshot env st = Tick_crossing cb snapshot ps p n (sb\<lparr>bounds := Some n\<rparr>))))"
proof -
  define nb where "nb = MakeBounds cb (GetFrame snapshot) (transform ps)"
  define n where "n = length (heap st)"
  define S where "S = st\<lparr>heap := heap st @ [nb]\<rparr>"
  have wfS: "wf_store S" using wf by (auto simp: wf_store_def S_def split: option.splits)
  have nS: "n < length (heap S)" "heap S ! n = nb" by (simp_all add: S_def n_def)
  have keep: "n < length (heap (interfere_all es S)) \<and> heap (interfere_all es S) ! n = nb" for es
    using nS
  proof (induction es arbitrary: S)
    case Nil then show ?case by simp
  next
    case (Cons e es) then show ?case using heap_interfere[of n S e] by simp
  qed
  have goal: "\<exists>k. Tick cb snapshot env st = (interfere_all (take k env) S, None, Returned) \<or>
            (bounds (interfere_all (take k env) S) = None \<and>
               Tick cb snapshot env st = ((interfere_all (take k env) S)\<lparr>bounds := Some n\<rparr>, None, Returned)) \<or>
            (\<exists>p. bounds (interfere_all (take k env) S) = Some p \<and> p < length (heap (interfere_all (take k env) S)) \<and>
               frame (heap (interfere_all (take k env) S) ! p) < frame nb \<and>
               Tick cb snapshot env st = Tick_crossing cb snapshot ps p n ((interfere_all (take k env) S)\<lparr>bounds := Some n\<rparr>))"
  proof (cases "bounds st")
    case (Some prev)
    then have T: "Tick cb snapshot env st = Tick_moved cb snapshot ps prev n env S"
      using found by (simp add: Tick_def make_shared_def load_def nb_def n_def S_def)
    have pl: "prev < length (heap S)" using wf Some by (simp add: wf_store_def S_def)
    have bS: "bounds S \<noteq> None" using Some by (simp add: S_def)
    from Tick_moved_effect[OF wfS pl nS(1) bS, where env=env and cb=cb and snapshot=snapshot and ps=ps]
    show ?thesis unfolding T Let_def nS(2) using keep by metis
  next
    case None
    let ?st2 = "interfere (next_interference env) S"
    have st2: "?st2 = interfere_all (take (Suc 0) env) S" by (cases env) simp_all
    show ?thesis
    proof (cases "bounds ?st2")
      case N2: None
      then have "Tick cb snapshot env st = (?st2\<lparr>bounds := Some n\<rparr>, None, Returned)"
        using found None by (simp add: Tick_def make_shared_def load_def nb_def n_def S_def compare_exchange_def)
      then show ?thesis using N2 unfolding st2 by blast
    next
      case (Some prev)
      then have T: "Tick cb snapshot env st = Tick_moved cb snapshot ps prev n (tl env) ?st2"
        using found None by (simp add: Tick_def make_shared_def load_def nb_def n_def S_def compare_exchange_def)
      have wf2: "wf_store ?st2" using wfS by (rule wf_interfere)
      have pl: "prev < length (heap ?st2)" using wf2 Some by (simp add: wf_store_def)
      have n2: "n < length (heap ?st2)" "heap ?st2 ! n = nb" using heap_interfere[OF nS(1)] nS(2) by auto
      have b2: "bounds ?st2 \<noteq> None" using Some by simp
      from Tick_moved_effect[OF wf2 pl n2(1) b2, where env="tl env" and cb=cb and snapshot=snapshot and ps=ps]
      obtain k where k: "Tick_moved cb snapshot ps prev n (tl env) ?st2 = (interfere_all (take k (tl env)) ?st2, None, Returned) \<or>
           (\<exists>p. bounds (interfere_all (take k (tl env)) ?st2) = Some p \<and> p < length (heap (interfere_all (take k (tl env)) ?st2)) \<and>
               frame (heap (interfere_all (take k (tl env)) ?st2) ! p) < frame (heap (interfere_all (take k (tl env)) ?st2) ! n) \<and>
               heap (interfere_all (take k (tl env)) ?st2) ! n = heap ?st2 ! n \<and>
               Tick_moved cb snapshot ps prev n (tl env) ?st2 =
                 Tick_crossing cb snapshot ps p n ((interfere_all (take k (tl env)) ?st2)\<lparr>bounds := Some n\<rparr>))"
        unfolding Let_def by blast
      show ?thesis
        apply (rule exI[of _ "Suc k"])
        using k unfolding T interfere_next_tl n2(2) by auto
    qed
  qed
  show ?thesis
    unfolding Let_def nb_def[symmetric] n_def[symmetric] S_def[symmetric]
    using goal keep by blast
qed

lemma wf_empty_store: "wf_store empty_store"
  by (simp add: wf_store_def empty_store_def)

lemma frame_MakeBounds: "frame (MakeBounds cb f tf) = f"
  by (simp add: MakeBounds_def Let_def)

lemma Tick_absent: "Find snapshot (parent cb) = None \<Longrightarrow> Tick cb snapshot env st = (st, None, Returned)"
  by (simp add: Tick_def)

lemma Tick_stale:
  assumes wf: "wf_store st" and found: "Find snapshot (parent cb) = Some ps"
    and p: "bounds st = Some p" and stale: "GetFrame snapshot \<le> frame (heap st ! p)"
  shows "Tick cb snapshot env st =
           (st\<lparr>heap := heap st @ [MakeBounds cb (GetFrame snapshot) (transform ps)]\<rparr>, None, Returned)"
proof -
  have pl: "p < length (heap st)" using wf p by (simp add: wf_store_def)
  show ?thesis
    using found p stale pl
    by (simp add: Tick_def make_shared_def load_def Tick_moved_def Tick_commit_def nth_append frame_MakeBounds)
qed

lemma wf_interfere_all: "wf_store st \<Longrightarrow> wf_store (interfere_all es st)"
  by (induction es arbitrary: st) (simp_all add: wf_interfere)

lemma Tick_preserves_wf_store:
  assumes wf: "wf_store st"
  shows "wf_store (fst (Tick cb snapshot env st))"
proof (cases "Find snapshot (parent cb)")
  case None
  then show ?thesis using wf by (simp add: Tick_absent)
next
  case (Some ps)
  have wfS: "wf_store (st\<lparr>heap := heap st @ [b]\<rparr>)" for b
    using wf by (auto simp: wf_store_def split: option.splits)
  have upd: "n < length (heap s) \<Longrightarrow> wf_store (s\<lparr>bounds := Some n\<rparr>)" for n s
    by (simp add: wf_store_def)
  from Tick_effect[OF wf Some, of env] show ?thesis
    unfolding Let_def using wf_interfere_all[OF wfS] upd
    by (auto simp: fst_Tick_crossing)
qed

lemma Tick_sequential_step:
  assumes wf: "wf_store st"
  shows "wf_store (fst (Tick cb snapshot [] st)) \<and> newer_or_same st (fst (Tick cb snapshot [] st))"
proof (cases "Find snapshot (parent cb)")
  case None
  then show ?thesis using wf
    by (auto simp: Tick_absent newer_or_same_def wf_store_def split: option.splits)
next
  case (Some ps)
  define nb where "nb = MakeBounds cb (GetFrame snapshot) (transform ps)"
  define S where "S = st\<lparr>heap := heap st @ [nb]\<rparr>"
  from Tick_effect[OF wf Some, of "[]"]
  have eff: "heap S ! length (heap st) = nb \<and>
     (Tick cb snapshot [] st = (S, None, Returned) \<or>
      (bounds S = None \<and> Tick cb snapshot [] st = (S\<lparr>bounds := Some (length (heap st))\<rparr>, None, Returned)) \<or>
      (\<exists>p. bounds S = Some p \<and> p < length (heap S) \<and> frame (heap S ! p) < frame nb \<and>
          Tick cb snapshot [] st = Tick_crossing cb snapshot ps p (length (heap st)) (S\<lparr>bounds := Some (length (heap st))\<rparr>)))"
    by (simp add: Let_def nb_def S_def)
  have same: "wf_store S \<and> newer_or_same st S" using wf
    by (auto simp: S_def wf_store_def newer_or_same_def nth_append split: option.splits)
  have upd: "wf_store (S\<lparr>bounds := Some (length (heap st))\<rparr>)"
    by (simp add: S_def wf_store_def)
  from eff show ?thesis
  proof (elim conjE disjE exE)
    assume "Tick cb snapshot [] st = (S, None, Returned)"
    then show ?thesis using same by simp
  next
    assume "bounds S = None" "Tick cb snapshot [] st = (S\<lparr>bounds := Some (length (heap st))\<rparr>, None, Returned)"
    then show ?thesis using upd by (simp add: newer_or_same_def S_def)
  next
    fix p assume a: "bounds S = Some p" "p < length (heap S)" "frame (heap S ! p) < frame nb"
      "Tick cb snapshot [] st = Tick_crossing cb snapshot ps p (length (heap st)) (S\<lparr>bounds := Some (length (heap st))\<rparr>)"
      "heap S ! length (heap st) = nb"
    have pst: "p < length (heap st)" using a(1) wf by (simp add: S_def wf_store_def)
    have "fst (Tick cb snapshot [] st) = S\<lparr>bounds := Some (length (heap st))\<rparr>"
      using a(4) by (simp add: fst_Tick_crossing)
    moreover have "newer_or_same st (S\<lparr>bounds := Some (length (heap st))\<rparr>)"
      using a pst by (simp add: newer_or_same_def S_def nth_append)
    ultimately show ?thesis using upd by simp
  qed
qed

lemma newer_or_same_trans: "newer_or_same a b \<Longrightarrow> newer_or_same b c \<Longrightarrow> newer_or_same a c"
  by (auto simp: newer_or_same_def split: option.splits)

lemma run_ticks_newer:
  "wf_store st \<Longrightarrow> sorted_wrt newer_or_same (st # run_ticks cb snapshots st)"
proof (induction snapshots arbitrary: st)
  case Nil
  then show ?case by simp
next
  case (Cons s ss)
  let ?st' = "fst (Tick cb s [] st)"
  from Tick_sequential_step[OF Cons.prems] have step: "wf_store ?st'" "newer_or_same st ?st'" by auto
  from Cons.IH[OF step(1)] have ih: "sorted_wrt newer_or_same (?st' # run_ticks cb ss ?st')" .
  then have "\<forall>y\<in>set (run_ticks cb ss ?st'). newer_or_same st y"
    using step(2) newer_or_same_trans by auto
  then show ?case using ih step(2) by simp
qed

section \<open>Evaluation at the concrete inputs\<close>

lemma Rotate_0: "Rotate 0 v = v"
  by (simp add: Rotate_def)

lemma Rotate_90: "Rotate 90 v = \<lparr>loc_x = - loc_y v, loc_y = loc_x v, loc_z = loc_z v\<rparr>"
  by (simp add: Rotate_def)

lemma MakeBounds_square: "MakeBounds (callback_with lanes f) frm (pose 0 px py) = square_at frm px py"
  by (simp add: MakeBounds_def callback_with_def pose_def unit_box_def square_at_def Rotate_0 loc_add_def)

lemma MakeBounds_turned: "MakeBounds (callback_with lanes f) frm (pose 90 px py) = turned_square_at frm px py"
  by (simp add: MakeBounds_def callback_with_def pose_def unit_box_def turned_square_at_def Rotate_90 loc_add_def)

lemma Length_less_iff: "0 < t \<Longrightarrow> Length v < t \<longleftrightarrow> loc_x v * loc_x v + loc_y v * loc_y v + loc_z v * loc_z v < t * t"
proof -
  assume t: "0 < t"
  have "Length v < t \<longleftrightarrow> sqrt (loc_x v * loc_x v + loc_y v * loc_y v + loc_z v * loc_z v) < sqrt (t * t)"
    using t by (simp add: Length_def)
  then show ?thesis by (simp only: real_sqrt_less_iff)
qed

lemma distance_threshold_pos: "0 < distance_threshold"
  by (simp add: distance_threshold_def float_epsilon_def)

lemma displacement_below_iff:
  "displacement pb nb i < distance_threshold \<longleftrightarrow>
     (let d = loc_sub (corner (corners nb) i) (corner (corners pb) i)
      in loc_x d * loc_x d + loc_y d * loc_y d + loc_z d * loc_z d < 100 / 2 ^ 46)"
  unfolding displacement_def Let_def Length_less_iff[OF distance_threshold_pos]
  by (simp add: distance_threshold_def float_epsilon_def)

lemma some_corner_below_threshold_iff:
  "some_corner_below_threshold pb nb \<longleftrightarrow>
     displacement pb nb 0 < distance_threshold \<or> displacement pb nb 1 < distance_threshold \<or>
     displacement pb nb 2 < distance_threshold \<or> displacement pb nb 3 < distance_threshold"
  by (simp add: some_corner_below_threshold_def upt4)

lemma crossed_lanes_eq:
  "crossed_lanes cb pb nb =
     CalculateCrossedLanes cb (corner (corners pb) 0) (corner (corners nb) 0) @
     CalculateCrossedLanes cb (corner (corners pb) 1) (corner (corners nb) 1) @
     CalculateCrossedLanes cb (corner (corners pb) 2) (corner (corners nb) 2) @
     CalculateCrossedLanes cb (corner (corners pb) 3) (corner (corners nb) 3)"
  by (simp add: crossed_lanes_def upt4)

lemmas snapshot_simps = snapshot_at_def snapshot_without_def Find_def GetFrame_def GetTimestamp_def

lemmas store_simps = make_shared_def load_def compare_exchange_def empty_store_def

lemmas corner_simps = square_at_def turned_square_at_def displacement_below_iff loc_sub_def

lemma parent_callback_with: "parent (callback_with lanes f) = 7"
  by (simp add: callback_with_def)

lemma CalculateCrossedLanes_callback_with: "CalculateCrossedLanes (callback_with lanes f) = lanes"
  by (simp add: callback_with_def)

lemma callback_callback_with: "callback (callback_with lanes f) = f"
  by (simp add: callback_with_def)

lemmas callback_simps = parent_callback_with CalculateCrossedLanes_callback_with callback_callback_with

lemma first_tick: "Tick (callback_with lanes f) (snapshot_at 1 0 0 0) [] empty_store =
   (\<lparr>heap = [square_at 1 0 0], bounds = Some 0\<rparr>, None, Returned)"
  by (simp add: Tick_def snapshot_simps store_simps callback_simps MakeBounds_square)

lemma pivot_displacements:
  "displacement (square_at 1 0 0) (turned_square_at 2 2 0) 0 < distance_threshold"
  "\<not> displacement (square_at 1 0 0) (turned_square_at 2 2 0) 1 < distance_threshold"
  "\<not> displacement (square_at 1 0 0) (turned_square_at 2 2 0) 2 < distance_threshold"
  "\<not> displacement (square_at 1 0 0) (turned_square_at 2 2 0) 3 < distance_threshold"
  by (simp_all add: corner_simps)

lemma pivot_tick: "Tick (callback_with always_crossing returns) (snapshot_at 2 90 2 0) [] \<lparr>heap = [square_at 1 0 0], bounds = Some 0\<rparr> =
   (\<lparr>heap = [square_at 1 0 0, turned_square_at 2 2 0], bounds = Some 0\<rparr>, None, Returned)"
  by (simp add: Tick_def snapshot_simps store_simps callback_simps MakeBounds_turned Tick_moved_def
       some_corner_below_threshold_iff pivot_displacements)

lemmas word_cmp = word_le_nat_alt word_less_nat_alt

lemmas tick_simps = Tick_def Tick_moved_def Tick_commit_def Tick_crossing_def crossed_lanes_eq
  some_corner_below_threshold_iff snapshot_simps store_simps callback_simps word_cmp

lemma pivot_commit: "Tick_commit (callback_with always_crossing returns) (snapshot_at 2 90 2 0) \<lparr>transform = pose 90 2 0\<rparr> 0 1 []
      \<lparr>heap = [square_at 1 0 0, turned_square_at 2 2 0], bounds = Some 0\<rparr> = 
    (\<lparr>heap = [square_at 1 0 0, turned_square_at 2 2 0], bounds = Some 1\<rparr>,
     Some \<lparr>ev_frame = 2, ev_timestamp = 0, ev_transform = pose 90 2 0, ev_parent = 7,
           crossed_lane_markings = [''still'', ''M'', ''M'', ''M'']\<rparr>, Returned)"
  by (simp add: tick_simps) (simp add: square_at_def turned_square_at_def always_crossing_def returns_def)

lemma Tick_crossing_eq:
  "Tick_crossing cb snapshot ps p n st =
     (let cr = CalculateCrossedLanes cb (corner (corners (heap st ! p)) 0) (corner (corners (heap st ! n)) 0) @
               CalculateCrossedLanes cb (corner (corners (heap st ! p)) 1) (corner (corners (heap st ! n)) 1) @
               CalculateCrossedLanes cb (corner (corners (heap st ! p)) 2) (corner (corners (heap st ! n)) 2) @
               CalculateCrossedLanes cb (corner (corners (heap st ! p)) 3) (corner (corners (heap st ! n)) 3);
          ev = \<lparr>ev_frame = ts_frame (GetTimestamp snapshot),
                ev_timestamp = elapsed_seconds (GetTimestamp snapshot),
                ev_transform = transform ps, ev_parent = parent cb,
                crossed_lane_markings = cr\<rparr>
      in (st, if cr = [] then None else Some ev,
          if cr = [] then Returned else (case callback cb ev of None \<Rightarrow> Returned | Some e \<Rightarrow> Thrown e)))"
  by (simp add: Tick_crossing_def crossed_lanes_eq Let_def)

section \<open>The user callback and the outcome of a tick\<close>

lemma MakeBounds_callback_update: "MakeBounds (cb\<lparr>callback := f\<rparr>) frm tf = MakeBounds cb frm tf"
  by (simp add: MakeBounds_def)

lemma Tick_crossing_callback_update:
  "fst (Tick_crossing (cb\<lparr>callback := f\<rparr>) snapshot ps p n st) = fst (Tick_crossing cb snapshot ps p n st) \<and>
   fst (snd (Tick_crossing (cb\<lparr>callback := f\<rparr>) snapshot ps p n st)) = fst (snd (Tick_crossing cb snapshot ps p n st))"
  by (simp add: Tick_crossing_def crossed_lanes_def Let_def)

lemma Tick_commit_callback_update:
  "fst (Tick_commit (cb\<lparr>callback := f\<rparr>) snapshot ps p n env st) = fst (Tick_commit cb snapshot ps p n env st) \<and>
   fst (snd (Tick_commit (cb\<lparr>callback := f\<rparr>) snapshot ps p n env st)) = fst (snd (Tick_commit cb snapshot ps p n env st))"
  by (simp add: Tick_commit_def Tick_crossing_callback_update split: prod.splits loop_result.splits)

lemma Tick_moved_callback_update:
  "fst (Tick_moved (cb\<lparr>callback := f\<rparr>) snapshot ps p n env st) = fst (Tick_moved cb snapshot ps p n env st) \<and>
   fst (snd (Tick_moved (cb\<lparr>callback := f\<rparr>) snapshot ps p n env st)) = fst (snd (Tick_moved cb snapshot ps p n env st))"
  by (simp add: Tick_moved_def Tick_commit_callback_update)

lemma Tick_callback_update:
  "fst (Tick (cb\<lparr>callback := f\<rparr>) snapshot env st) = fst (Tick cb snapshot env st) \<and>
   fst (snd (Tick (cb\<lparr>callback := f\<rparr>) snapshot env st)) = fst (snd (Tick cb snapshot env st))"
  by (simp add: Tick_def MakeBounds_callback_update Tick_moved_callback_update
        split: option.splits prod.splits bool.splits)

lemma Tick_status:
  assumes wf: "wf_store st"
  shows "snd (snd (Tick cb snapshot env st)) = Returned \<or>
         (\<exists>ev e. callback cb ev = Some e \<and> snd (snd (Tick cb snapshot env st)) = Thrown e)"
proof (cases "Find snapshot (parent cb)")
  case None
  then show ?thesis by (simp add: Tick_absent)
next
  case (Some ps)
  have cr: "snd (snd (Tick_crossing cb snapshot ps p n s)) = Returned \<or>
         (\<exists>ev e. callback cb ev = Some e \<and> snd (snd (Tick_crossing cb snapshot ps p n s)) = Thrown e)" for p n s
    by (auto simp: Tick_crossing_def Let_def split: option.splits)
  from Tick_effect[OF wf Some, of env] show ?thesis
    unfolding Let_def using cr by (metis snd_conv)
qed

lemma Tick_never_dereferences_null:
  "wf_store st \<Longrightarrow> snd (snd (Tick cb snapshot env st)) \<noteq> NullDereference"
  using Tick_status[of st cb snapshot env] by auto

lemma moving_tick:
  "Tick (callback_with always_crossing f) (snapshot_at 2 0 5 0) [] \<lparr>heap = [square_at 1 0 0], bounds = Some 0\<rparr> =
     (\<lparr>heap = [square_at 1 0 0, square_at 2 5 0], bounds = Some 1\<rparr>,
      Some \<lparr>ev_frame = 2, ev_timestamp = 0, ev_transform = pose 0 5 0, ev_parent = 7,
            crossed_lane_markings = [''M'', ''M'', ''M'', ''M'']\<rparr>,
      case f \<lparr>ev_frame = 2, ev_timestamp = 0, ev_transform = pose 0 5 0, ev_parent = 7,
            crossed_lane_markings = [''M'', ''M'', ''M'', ''M'']\<rparr> of None \<Rightarrow> Returned | Some e \<Rightarrow> Thrown e)"
  by (simp add: tick_simps MakeBounds_square corner_simps) (simp add: square_at_def always_crossing_def Let_def)

section \<open>Registrations\<close>

lemma registered_ids_Remove:
  "registered_ids (RemoveOnTickEvent episode i) = filter (\<lambda>j. j \<noteq> i) (registered_ids episode)"
  by (induction "on_tick_callbacks episode" arbitrary: episode)
     (auto simp: registered_ids_def RemoveOnTickEvent_def filter_map comp_def case_prod_unfold)

lemma registered_ids_Register:
  "registered_ids (snd (RegisterOnTickEvent episode i h)) = registered_ids episode @ [i]"
  by (simp add: registered_ids_def RegisterOnTickEvent_def)

lemma filter_swap: "filter P (filter Q xs) = filter Q (filter P xs)"
  by (induction xs) auto

lemma registered_ids_Listen:
  "registered_ids (fst (snd (Listen sensor f i episode lg))) =
     (case as_vehicle (sensor_parent sensor) of
        None \<Rightarrow> registered_ids episode
      | Some v \<Rightarrow>
          if callback_id sensor \<noteq> 0
          then filter (\<lambda>j. j \<noteq> callback_id sensor) (registered_ids episode @ [i])
          else registered_ids episode @ [i])"
  by (simp add: Listen_def Let_def RegisterOnTickEvent_def registered_ids_Remove
        registered_ids_def[of "_\<lparr>on_tick_callbacks := _\<rparr>"] registered_ids_def[of episode, symmetric]
        split: option.splits)

lemma callback_id_Listen:
  "callback_id (fst (Listen sensor f i episode lg)) =
     (case as_vehicle (sensor_parent sensor) of None \<Rightarrow> callback_id sensor | Some v \<Rightarrow> i)"
  by (simp add: Listen_def Let_def RegisterOnTickEvent_def split: option.splits)

lemma registered_ids_Stop:
  "registered_ids (snd (Stop sensor True episode)) =
     (if callback_id sensor \<noteq> 0 then filter (\<lambda>j. j \<noteq> callback_id sensor) (registered_ids episode)
      else registered_ids episode)"
  by (simp add: Stop_def Let_def TryLock_def registered_ids_Remove)

lemma callback_id_Stop: "callback_id (fst (Stop sensor alive episode)) = 0"
  by (simp add: Stop_def Let_def TryLock_def)

lemma Listen_own:
  assumes sub: "set (own_registration sensor) \<union> {i} \<subseteq> S"
    and inv: "filter (\<lambda>j. j \<in> S) (registered_ids episode) = own_registration sensor"
    and new: "i \<notin> set (own_registration sensor)" and nz: "i \<noteq> 0"
  shows "filter (\<lambda>j. j \<in> S) (registered_ids (fst (snd (Listen sensor f i episode lg)))) =
           own_registration (fst (Listen sensor f i episode lg))"
proof (cases "as_vehicle (sensor_parent sensor)")
  case None
  then show ?thesis using inv
    by (simp add: registered_ids_Listen own_registration_def callback_id_Listen)
next
  case (Some v)
  have iS: "i \<in> S" using sub by simp
  show ?thesis
  proof (cases "callback_id sensor = 0")
    case True
    then show ?thesis using Some inv iS nz
      by (simp add: registered_ids_Listen own_registration_def callback_id_Listen)
  next
    case False
    then have own: "own_registration sensor = [callback_id sensor]" by (simp add: own_registration_def)
    have ne: "i \<noteq> callback_id sensor" using new own by simp
    have "filter (\<lambda>j. j \<in> S) (filter (\<lambda>j. j \<noteq> callback_id sensor) (registered_ids episode @ [i])) =
          filter (\<lambda>j. j \<noteq> callback_id sensor) (filter (\<lambda>j. j \<in> S) (registered_ids episode @ [i]))"
      by (rule filter_swap)
    also have "\<dots> = [i]" using inv own iS ne by simp
    finally show ?thesis using Some False nz
      by (simp add: registered_ids_Listen own_registration_def callback_id_Listen)
  qed
qed

lemma Stop_own:
  assumes inv: "filter (\<lambda>j. j \<in> S) (registered_ids episode) = own_registration sensor"
  shows "filter (\<lambda>j. j \<in> S) (registered_ids (snd (Stop sensor True episode))) = []"
proof (cases "callback_id sensor = 0")
  case True
  then show ?thesis using inv by (simp add: registered_ids_Stop own_registration_def)
next
  case False
  have "filter (\<lambda>j. j \<in> S) (filter (\<lambda>j. j \<noteq> callback_id sensor) (registered_ids episode)) =
        filter (\<lambda>j. j \<noteq> callback_id sensor) (filter (\<lambda>j. j \<in> S) (registered_ids episode))"
    by (rule filter_swap)
  also have "\<dots> = []" using inv False by (simp add: own_registration_def)
  finally show ?thesis using False by (simp add: registered_ids_Stop)
qed

lemma own_registration_Listen:
  "i \<noteq> 0 \<Longrightarrow> set (own_registration (fst (Listen sensor f i episode lg))) \<subseteq> set (own_registration sensor) \<union> {i}"
  by (simp add: own_registration_def callback_id_Listen split: option.splits)

lemma own_registration_Stop: "own_registration (fst (Stop sensor alive episode)) = []"
  by (simp add: own_registration_def callback_id_Stop)

lemma run_ops_own:
  assumes "set (own_registration sensor) \<union> set (listen_ids ops) \<subseteq> S"
    and "filter (\<lambda>j. j \<in> S) (registered_ids episode) = own_registration sensor"
    and "distinct (own_registration sensor @ listen_ids ops)"
    and "0 \<notin> set (listen_ids ops)"
    and "set (other_ids ops) \<inter> S = {}"
  shows "filter (\<lambda>j. j \<in> S) (registered_ids (fst (snd (run_ops ops (sensor, episode, lg))))) =
           own_registration (fst (run_ops ops (sensor, episode, lg)))"
  using assms
proof (induction ops arbitrary: sensor episode lg)
  case Nil
  then show ?case by simp
next
  case (Cons op ops)
  show ?case
  proof (cases op)
    case (DoListen f i)
    obtain s1 e1 l1 where L: "Listen sensor f i episode lg = (s1, e1, l1)"
      by (cases "Listen sensor f i episode lg")
    have nz: "i \<noteq> 0" and new: "i \<notin> set (own_registration sensor)"
      and sub: "set (own_registration sensor) \<union> {i} \<subseteq> S"
      using Cons.prems DoListen by auto
    from Listen_own[OF sub Cons.prems(2) new nz, of f lg] L
    have inv1: "filter (\<lambda>j. j \<in> S) (registered_ids e1) = own_registration s1" by simp
    from own_registration_Listen[OF nz, of sensor f episode lg] L
    have o1: "set (own_registration s1) \<subseteq> set (own_registration sensor) \<union> {i}" by simp
    have sub1: "set (own_registration s1) \<union> set (listen_ids ops) \<subseteq> S"
      using o1 Cons.prems(1) DoListen by auto
    have d1: "distinct (own_registration s1 @ listen_ids ops)"
    proof -
      have "distinct (own_registration s1)" by (simp add: own_registration_def)
      moreover have "set (own_registration s1) \<inter> set (listen_ids ops) = {}"
        using o1 Cons.prems(3) DoListen by auto
      ultimately show ?thesis using Cons.prems(3) DoListen by auto
    qed
    have z1: "0 \<notin> set (listen_ids ops)" using Cons.prems(4) DoListen by simp
    have f1: "set (other_ids ops) \<inter> S = {}" using Cons.prems(5) DoListen by simp
    from Cons.IH[OF sub1 inv1 d1 z1 f1, of l1] show ?thesis using DoListen L by simp
  next
    case DoStop
    obtain s1 e1 where St: "Stop sensor True episode = (s1, e1)" by (cases "Stop sensor True episode")
    from Stop_own[OF Cons.prems(2)] own_registration_Stop[of sensor True episode] St
    have own1: "own_registration s1 = []"
      and inv1: "filter (\<lambda>j. j \<in> S) (registered_ids e1) = own_registration s1" by simp_all
    have sub1: "set (own_registration s1) \<union> set (listen_ids ops) \<subseteq> S"
      using own1 Cons.prems(1) DoStop by simp
    have d1: "distinct (own_registration s1 @ listen_ids ops)"
      using own1 Cons.prems(3) DoStop by simp
    have z1: "0 \<notin> set (listen_ids ops)" using Cons.prems(4) DoStop by simp
    have f1: "set (other_ids ops) \<inter> S = {}" using Cons.prems(5) DoStop by simp
    from Cons.IH[OF sub1 inv1 d1 z1 f1, of lg] show ?thesis using DoStop St by simp
  next
    case (OtherRegisters i h)
    have iS: "i \<notin> S" using Cons.prems(5) OtherRegisters by auto
    have inv1: "filter (\<lambda>j. j \<in> S) (registered_ids (snd (RegisterOnTickEvent episode i h))) =
                own_registration sensor"
      using Cons.prems(2) iS by (simp add: registered_ids_Register)
    have sub1: "set (own_registration sensor) \<union> set (listen_ids ops) \<subseteq> S"
      and d1: "distinct (own_registration sensor @ listen_ids ops)"
      and z1: "0 \<notin> set (listen_ids ops)" and f1: "set (other_ids ops) \<inter> S = {}"
      using Cons.prems OtherRegisters by auto
    from Cons.IH[OF sub1 inv1 d1 z1 f1, of lg] show ?thesis using OtherRegisters by simp
  next
    case (OtherRemoves i)
    have iS: "i \<notin> S" using Cons.prems(5) OtherRemoves by auto
    have "filter (\<lambda>j. j \<in> S) (filter (\<lambda>j. j \<noteq> i) (registered_ids episode)) =
          filter (\<lambda>j. j \<noteq> i) (filter (\<lambda>j. j \<in> S) (registered_ids episode))"
      by (rule filter_swap)
    also have "\<dots> = own_registration sensor"
      using Cons.prems(1,2) iS by (auto simp: own_registration_def split: if_splits)
    finally have inv1: "filter (\<lambda>j. j \<in> S) (registered_ids (RemoveOnTickEvent episode i)) =
                own_registration sensor"
      by (simp add: registered_ids_Remove)
    have sub1: "set (own_registration sensor) \<union> set (listen_ids ops) \<subseteq> S"
      and d1: "distinct (own_registration sensor @ listen_ids ops)"
      and z1: "0 \<notin> set (listen_ids ops)" and f1: "set (other_ids ops) \<inter> S = {}"
      using Cons.prems OtherRemoves by auto
    from Cons.IH[OF sub1 inv1 d1 z1 f1, of lg] show ?thesis using OtherRemoves by simp
  qed
qed

lemma Listen_others:
  assumes "set (own_registration sensor) \<union> {i} \<subseteq> S"
  shows "filter (\<lambda>j. j \<notin> S) (registered_ids (fst (snd (Listen sensor f i episode lg)))) =
           filter (\<lambda>j. j \<notin> S) (registered_ids episode)"
proof -
  have "filter (\<lambda>j. j \<notin> S) (filter (\<lambda>j. j \<noteq> callback_id sensor) xs) = filter (\<lambda>j. j \<notin> S) xs"
    if "callback_id sensor \<noteq> 0" for xs
  proof -
    have "callback_id sensor \<in> S" using assms that by (simp add: own_registration_def)
    then show ?thesis by (induction xs) auto
  qed
  then show ?thesis using assms
    by (simp add: registered_ids_Listen split: option.splits)
qed

lemma Stop_others:
  assumes "set (own_registration sensor) \<subseteq> S"
  shows "filter (\<lambda>j. j \<notin> S) (registered_ids (snd (Stop sensor True episode))) =
           filter (\<lambda>j. j \<notin> S) (registered_ids episode)"
proof -
  have "filter (\<lambda>j. j \<notin> S) (filter (\<lambda>j. j \<noteq> callback_id sensor) xs) = filter (\<lambda>j. j \<notin> S) xs"
    if "callback_id sensor \<noteq> 0" for xs
  proof -
    have "callback_id sensor \<in> S" using assms that by (simp add: own_registration_def)
    then show ?thesis by (induction xs) auto
  qed
  then show ?thesis by (simp add: registered_ids_Stop)
qed

lemma run_ops_others:
  assumes "set (own_registration sensor) \<union> set (listen_ids ops) \<subseteq> S"
    and "0 \<notin> set (listen_ids ops)"
    and "filter (\<lambda>j. j \<notin> S) (registered_ids episode) = filter (\<lambda>j. j \<notin> S) (registered_ids episode2)"
  shows "filter (\<lambda>j. j \<notin> S) (registered_ids (fst (snd (run_ops ops (sensor, episode, lg))))) =
           filter (\<lambda>j. j \<notin> S) (registered_ids (run_others ops episode2))"
  using assms
proof (induction ops arbitrary: sensor episode episode2 lg)
  case Nil
  then show ?case by simp
next
  case (Cons op ops)
  show ?case
  proof (cases op)
    case (DoListen f i)
    obtain s1 e1 l1 where L: "Listen sensor f i episode lg = (s1, e1, l1)"
      by (cases "Listen sensor f i episode lg")
    have nz: "i \<noteq> 0" and sub: "set (own_registration sensor) \<union> {i} \<subseteq> S"
      using Cons.prems DoListen by auto
    from Listen_others[OF sub, of f episode lg] L Cons.prems(3)
    have eq1: "filter (\<lambda>j. j \<notin> S) (registered_ids e1) = filter (\<lambda>j. j \<notin> S) (registered_ids episode2)"
      by simp
    from own_registration_Listen[OF nz, of sensor f episode lg] L
    have sub1: "set (own_registration s1) \<union> set (listen_ids ops) \<subseteq> S"
      using Cons.prems(1) DoListen by auto
    have z1: "0 \<notin> set (listen_ids ops)" using Cons.prems(2) DoListen by simp
    from Cons.IH[OF sub1 z1 eq1, of l1] show ?thesis using DoListen L by simp
  next
    case DoStop
    obtain s1 e1 where St: "Stop sensor True episode = (s1, e1)" by (cases "Stop sensor True episode")
    have sub: "set (own_registration sensor) \<subseteq> S" using Cons.prems(1) by simp
    from Stop_others[OF sub, of episode] St Cons.prems(3)
    have eq1: "filter (\<lambda>j. j \<notin> S) (registered_ids e1) = filter (\<lambda>j. j \<notin> S) (registered_ids episode2)"
      by simp
    from own_registration_Stop[of sensor True episode] St
    have sub1: "set (own_registration s1) \<union> set (listen_ids ops) \<subseteq> S"
      using Cons.prems(1) DoStop by simp
    have z1: "0 \<notin> set (listen_ids ops)" using Cons.prems(2) DoStop by simp
    from Cons.IH[OF sub1 z1 eq1, of lg] show ?thesis using DoStop St by simp
  next
    case (OtherRegisters i h)
    have eq1: "filter (\<lambda>j. j \<notin> S) (registered_ids (snd (RegisterOnTickEvent episode i h))) =
               filter (\<lambda>j. j \<notin> S) (registered_ids (snd (RegisterOnTickEvent episode2 i h)))"
      using Cons.prems(3) by (simp add: registered_ids_Register)
    have sub1: "set (own_registration sensor) \<union> set (listen_ids ops) \<subseteq> S"
      and z1: "0 \<notin> set (listen_ids ops)"
      using Cons.prems OtherRegisters by auto
    from Cons.IH[OF sub1 z1 eq1, of lg] show ?thesis using OtherRegisters by simp
  next
    case (OtherRemoves i)
    have "filter (\<lambda>j. j \<notin> S) (filter (\<lambda>j. j \<noteq> i) (registered_ids episode)) =
          filter (\<lambda>j. j \<notin> S) (filter (\<lambda>j. j \<noteq> i) (registered_ids episode2))"
      using Cons.prems(3) by (metis filter_swap)
    then have eq1: "filter (\<lambda>j. j \<notin> S) (registered_ids (RemoveOnTickEvent episode i)) =
               filter (\<lambda>j. j \<notin> S) (registered_ids (RemoveOnTickEvent episode2 i))"
      by (simp add: registered_ids_Remove)
    have sub1: "set (own_registration sensor) \<union> set (listen_ids ops) \<subseteq> S"
      and z1: "0 \<notin> set (listen_ids ops)"
      using Cons.prems OtherRemoves by auto
    from Cons.IH[OF sub1 z1 eq1, of lg] show ?thesis using OtherRemoves by simp
  qed
qed

section \<open>The claims\<close>

text \<open>
  Claim C1. A tick replaces the committed snapshot only by one with a strictly greater
  frame number, and a tick whose snapshot is not newer than the committed one changes
  nothing and emits nothing. In three parts, for a well-formed store:
  \<^item> Whatever the other threads do, the store a tick leaves is the store \<open>sb\<close> those threads
    made (the tick wrote nothing), or \<open>sb\<close> with the slot set to the tick's own object; in
    the second case the slot of \<open>sb\<close> was empty or held an object whose frame number is
    strictly less than the frame number of the world snapshot.
  \<^item> When the slot holds an object \<open>p\<close> whose frame number is greater than or equal to the
    frame number of the world snapshot, the slot still holds \<open>p\<close> after the tick, \<open>p\<close> is
    the same object, and no event was emitted.
  \<^item> Over any sequence of ticks run one after the other, any later store holds the same
    committed object as any earlier one, or one with a strictly greater frame number.
\<close>

theorem Tick_commits_only_newer_frames:
  assumes wf: "wf_store st"
  shows "(case Find snapshot (parent cb) of
            None \<Rightarrow> Tick cb snapshot env st = (st, None, Returned)
          | Some ps \<Rightarrow>
              (\<exists>k. let nb = MakeBounds cb (GetFrame snapshot) (transform ps);
                       n = length (heap st);
                       sb = interfere_all (take k env) (st\<lparr>heap := heap st @ [nb]\<rparr>)
                   in fst (Tick cb snapshot env st) = sb \<or>
                      (fst (Tick cb snapshot env st) = sb\<lparr>bounds := Some n\<rparr> \<and> heap sb ! n = nb \<and>
                       frame nb = GetFrame snapshot \<and>
                       (case bounds sb of None \<Rightarrow> True
                        | Some p \<Rightarrow> frame (heap sb ! p) < GetFrame snapshot))))
       \<and> (\<forall>p. bounds st = Some p \<and> GetFrame snapshot \<le> frame (heap st ! p) \<longrightarrow>
             bounds (fst (Tick cb snapshot env st)) = Some p \<and>
             heap (fst (Tick cb snapshot env st)) ! p = heap st ! p \<and>
             snd (Tick cb snapshot env st) = (None, Returned))
       \<and> sorted_wrt newer_or_same (st # run_ticks cb snapshots st)"
proof (intro conjI allI impI)
  show "case Find snapshot (parent cb) of
            None \<Rightarrow> Tick cb snapshot env st = (st, None, Returned)
          | Some ps \<Rightarrow>
              (\<exists>k. let nb = MakeBounds cb (GetFrame snapshot) (transform ps);
                       n = length (heap st);
                       sb = interfere_all (take k env) (st\<lparr>heap := heap st @ [nb]\<rparr>)
                   in fst (Tick cb snapshot env st) = sb \<or>
                      (fst (Tick cb snapshot env st) = sb\<lparr>bounds := Some n\<rparr> \<and> heap sb ! n = nb \<and>
                       frame nb = GetFrame snapshot \<and>
                       (case bounds sb of None \<Rightarrow> True
                        | Some p \<Rightarrow> frame (heap sb ! p) < GetFrame snapshot)))"
  proof (cases "Find snapshot (parent cb)")
    case None
    then show ?thesis by (simp add: Tick_absent)
  next
    case (Some ps)
    from Tick_effect[OF wf Some, of env] obtain k where
      k: "let nb = MakeBounds cb (GetFrame snapshot) (transform ps);
                  n = length (heap st);
                  sb = interfere_all (take k env) (st\<lparr>heap := heap st @ [nb]\<rparr>) in
           heap sb ! n = nb \<and> n < length (heap sb) \<and>
           (Tick cb snapshot env st = (sb, None, Returned) \<or>
            (bounds sb = None \<and> Tick cb snapshot env st = (sb\<lparr>bounds := Some n\<rparr>, None, Returned)) \<or>
            (\<exists>p. bounds sb = Some p \<and> p < length (heap sb) \<and> frame (heap sb ! p) < frame nb \<and>
               Tick cb snapshot env st = Tick_crossing cb snapshot ps p n (sb\<lparr>bounds := Some n\<rparr>)))"
      by blast
    show ?thesis
      unfolding Some option.case
      apply (rule exI[of _ k])
      using k unfolding Let_def
      by (auto simp: fst_Tick_crossing frame_MakeBounds)
  qed
next
  fix p assume a: "bounds st = Some p \<and> GetFrame snapshot \<le> frame (heap st ! p)"
  have pl: "p < length (heap st)" using wf a by (simp add: wf_store_def)
  show "bounds (fst (Tick cb snapshot env st)) = Some p"
    using a pl Tick_stale[OF wf _ _ _, of snapshot cb _ p env] Tick_absent[of snapshot cb env st]
    by (cases "Find snapshot (parent cb)") auto
  show "heap (fst (Tick cb snapshot env st)) ! p = heap st ! p"
    using a pl Tick_stale[OF wf _ _ _, of snapshot cb _ p env] Tick_absent[of snapshot cb env st]
    by (cases "Find snapshot (parent cb)") (auto simp: nth_append)
  show "snd (Tick cb snapshot env st) = (None, Returned)"
    using a pl Tick_stale[OF wf _ _ _, of snapshot cb _ p env] Tick_absent[of snapshot cb env st]
    by (cases "Find snapshot (parent cb)") auto
next
  show "sorted_wrt newer_or_same (st # run_ticks cb snapshots st)"
    using wf by (rule run_ticks_newer)
qed

text \<open>
  An instance: frame 5 is committed; a tick of frame 3 changes nothing, also when another
  thread is scheduled to commit, and a run of a frame 6 tick and a frame 2 tick is ordered.
\<close>

theorem Tick_commits_only_newer_frames_witness:
  "wf_store \<lparr>heap = [square_at 5 0 0], bounds = Some 0\<rparr> \<and>
   GetFrame (snapshot_at 3 0 4 0) \<le> frame (square_at 5 0 0) \<and>
   bounds (fst (Tick (callback_with always_crossing returns) (snapshot_at 3 0 4 0) [Commits (square_at 9 1 1)]
                 \<lparr>heap = [square_at 5 0 0], bounds = Some 0\<rparr>)) = Some 0 \<and>
   snd (Tick (callback_with always_crossing returns) (snapshot_at 3 0 4 0) [Commits (square_at 9 1 1)]
                 \<lparr>heap = [square_at 5 0 0], bounds = Some 0\<rparr>) = (None, Returned) \<and>
   sorted_wrt newer_or_same
     (\<lparr>heap = [square_at 5 0 0], bounds = Some 0\<rparr> #
      run_ticks (callback_with always_crossing returns) [snapshot_at 6 0 4 0, snapshot_at 2 0 9 0]
        \<lparr>heap = [square_at 5 0 0], bounds = Some 0\<rparr>)"
proof -
  let ?st = "\<lparr>heap = [square_at 5 0 0], bounds = Some 0\<rparr>"
  have wf: "wf_store ?st" by (simp add: wf_store_def)
  have stale: "bounds ?st = Some 0 \<and> GetFrame (snapshot_at 3 0 4 0) \<le> frame (heap ?st ! 0)"
    by (simp add: snapshot_simps square_at_def word_cmp)
  from Tick_commits_only_newer_frames[OF wf, where snapshot = "snapshot_at 3 0 4 0"
      and cb = "callback_with always_crossing returns" and env = "[Commits (square_at 9 1 1)]"
      and snapshots = "[snapshot_at 6 0 4 0, snapshot_at 2 0 9 0]"] stale
  show ?thesis using wf by simp
qed

text \<open>
  Claim C2 says that the movement check ends a tick exactly when all four corners moved
  less than the threshold. The loop of lines 99 to 103 returns at the first corner that
  moved less than the threshold, so one such corner is enough. The vehicle below makes a
  quarter turn about its corner 0: that corner stays at (1, 1, 0), the three others move by
  more than 2. The first tick installs the baseline; the second tick commits nothing and
  emits nothing, although the commit phase, had it run, would have committed frame 2 and
  emitted an event. (In single precision the cosine of the quarter turn is about -4.4e-8,
  not 0, and corner 0 lands within 1e-7 of its place: still below the threshold of about
  1.2e-6.)
\<close>

theorem Tick_pivot_counterexample:
  "Tick (callback_with always_crossing returns) (snapshot_at 1 0 0 0) [] empty_store =
     (\<lparr>heap = [square_at 1 0 0], bounds = Some 0\<rparr>, None, Returned) \<and>
   MakeBounds (callback_with always_crossing returns) 2 (pose 90 2 0) = turned_square_at 2 2 0 \<and>
   \<not> displacement (square_at 1 0 0) (turned_square_at 2 2 0) 1 < distance_threshold \<and>
   \<not> displacement (square_at 1 0 0) (turned_square_at 2 2 0) 2 < distance_threshold \<and>
   \<not> displacement (square_at 1 0 0) (turned_square_at 2 2 0) 3 < distance_threshold \<and>
   Tick (callback_with always_crossing returns) (snapshot_at 2 90 2 0) []
        \<lparr>heap = [square_at 1 0 0], bounds = Some 0\<rparr> =
     (\<lparr>heap = [square_at 1 0 0, turned_square_at 2 2 0], bounds = Some 0\<rparr>, None, Returned) \<and>
   Tick_commit (callback_with always_crossing returns) (snapshot_at 2 90 2 0) \<lparr>transform = pose 90 2 0\<rparr> 0 1 []
        \<lparr>heap = [square_at 1 0 0, turned_square_at 2 2 0], bounds = Some 0\<rparr> =
     (\<lparr>heap = [square_at 1 0 0, turned_square_at 2 2 0], bounds = Some 1\<rparr>,
      Some \<lparr>ev_frame = 2, ev_timestamp = 0, ev_transform = pose 90 2 0, ev_parent = 7,
            crossed_lane_markings = [''still'', ''M'', ''M'', ''M'']\<rparr>, Returned)"
  by (simp only: first_tick pivot_tick pivot_commit pivot_displacements MakeBounds_turned simp_thms)

text \<open>
  Claim C2, amended. Given a committed snapshot \<open>p\<close> and the freshly built snapshot \<open>nb\<close>,
  the tick ends without commit, crossing check or event when at least one of the four
  corner displacements is below the threshold; when all four are at or above it, the tick
  goes on with the staleness check and the commit (\<open>Tick_commit\<close>).
\<close>

theorem Tick_returns_when_one_corner_is_still:
  assumes wf: "wf_store st" and found: "Find snapshot (parent cb) = Some ps"
    and prev: "bounds st = Some p"
  shows "let nb = MakeBounds cb (GetFrame snapshot) (transform ps);
             st1 = st\<lparr>heap := heap st @ [nb]\<rparr>
         in ((\<exists>i\<in>{0, 1, 2, 3}. displacement (heap st ! p) nb i < distance_threshold) \<longrightarrow>
               Tick cb snapshot env st = (st1, None, Returned)) \<and>
            ((\<forall>i\<in>{0, 1, 2, 3}. distance_threshold \<le> displacement (heap st ! p) nb i) \<longrightarrow>
               Tick cb snapshot env st = Tick_commit cb snapshot ps p (length (heap st)) env st1)"
proof -
  have pl: "p < length (heap st)" using wf prev by (simp add: wf_store_def)
  show ?thesis
    using found prev pl
    by (auto simp: Let_def Tick_def make_shared_def load_def Tick_moved_def nth_append
          some_corner_below_threshold_iff not_less[symmetric])
qed

text \<open>
  The two cases at concrete inputs: the quarter turn about corner 0, and a move by 5 along
  the x axis.
\<close>

theorem Tick_returns_when_one_corner_is_still_witness:
  "wf_store \<lparr>heap = [square_at 1 0 0], bounds = Some 0\<rparr> \<and>
   displacement (square_at 1 0 0) (turned_square_at 2 2 0) 0 < distance_threshold \<and>
   Tick (callback_with always_crossing returns) (snapshot_at 2 90 2 0) []
        \<lparr>heap = [square_at 1 0 0], bounds = Some 0\<rparr> =
     (\<lparr>heap = [square_at 1 0 0, turned_square_at 2 2 0], bounds = Some 0\<rparr>, None, Returned) \<and>
   distance_threshold \<le> displacement (square_at 1 0 0) (square_at 2 5 0) 0 \<and>
   distance_threshold \<le> displacement (square_at 1 0 0) (square_at 2 5 0) 1 \<and>
   distance_threshold \<le> displacement (square_at 1 0 0) (square_at 2 5 0) 2 \<and>
   distance_threshold \<le> displacement (square_at 1 0 0) (square_at 2 5 0) 3 \<and>
   Tick (callback_with always_crossing returns) (snapshot_at 2 0 5 0) []
        \<lparr>heap = [square_at 1 0 0], bounds = Some 0\<rparr> =
     Tick_commit (callback_with always_crossing returns) (snapshot_at 2 0 5 0) \<lparr>transform = pose 0 5 0\<rparr> 0 1 []
        \<lparr>heap = [square_at 1 0 0, square_at 2 5 0], bounds = Some 0\<rparr>"
proof -
  let ?st = "\<lparr>heap = [square_at 1 0 0], bounds = Some 0\<rparr>"
  let ?cb = "callback_with always_crossing returns"
  have wf: "wf_store ?st" by (simp add: wf_store_def)
  have b: "bounds ?st = Some 0" by simp
  have f1: "Find (snapshot_at 2 90 2 0) (parent ?cb) = Some \<lparr>transform = pose 90 2 0\<rparr>"
    and f2: "Find (snapshot_at 2 0 5 0) (parent ?cb) = Some \<lparr>transform = pose 0 5 0\<rparr>"
    by (simp_all add: snapshot_simps callback_simps)
  have d0: "displacement (square_at 1 0 0) (turned_square_at 2 2 0) 0 < distance_threshold"
    by (simp add: corner_simps)
  have d5: "distance_threshold \<le> displacement (square_at 1 0 0) (square_at 2 5 0) 0"
    "distance_threshold \<le> displacement (square_at 1 0 0) (square_at 2 5 0) 1"
    "distance_threshold \<le> displacement (square_at 1 0 0) (square_at 2 5 0) 2"
    "distance_threshold \<le> displacement (square_at 1 0 0) (square_at 2 5 0) 3"
    by (simp_all add: not_less[symmetric] corner_simps)
  from Tick_returns_when_one_corner_is_still[OF wf f1 b, of "[]"] d0
  have t1: "Tick ?cb (snapshot_at 2 90 2 0) [] ?st =
     (\<lparr>heap = [square_at 1 0 0, turned_square_at 2 2 0], bounds = Some 0\<rparr>, None, Returned)"
    by (simp add: Let_def snapshot_simps MakeBounds_turned)
  from Tick_returns_when_one_corner_is_still[OF wf f2 b, of "[]"] d5
  have t2: "Tick ?cb (snapshot_at 2 0 5 0) [] ?st =
     Tick_commit ?cb (snapshot_at 2 0 5 0) \<lparr>transform = pose 0 5 0\<rparr> 0 1 []
        \<lparr>heap = [square_at 1 0 0, square_at 2 5 0], bounds = Some 0\<rparr>"
    by (simp add: Let_def snapshot_simps MakeBounds_square)
  show ?thesis using wf d0 d5 t1 t2 by simp
qed

text \<open>
  Claim C3. For a well-formed store and a world snapshot that holds the actor:
  \<^item> an event is handed to the user callback only when the tick has committed its own
    object;
  \<^item> run alone on a store whose committed snapshot \<open>p\<close> is older and from which every corner
    moved by the threshold or more, the tick commits, asks the geometry collaborator for the
    segment of each corner in the order 0, 1, 2, 3 and concatenates the answers in that
    order; it calls the user callback iff the concatenation is not empty, with the frame
    number and the elapsed seconds of the world snapshot, the transform of the actor, the
    actor id and the concatenation;
  \<^item> whatever the other threads do, the tick ends with no write and no event, or installs
    the baseline with no event, or replaces an object \<open>p\<close> and emits as above for the
    segments from the corners of \<open>p\<close>.
\<close>

theorem Tick_event_after_commit:
  assumes wf: "wf_store st" and found: "Find snapshot (parent cb) = Some ps"
  shows "let nb = MakeBounds cb (GetFrame snapshot) (transform ps); n = length (heap st)
         in (\<forall>e. fst (snd (Tick cb snapshot env st)) = Some e \<longrightarrow>
               bounds (fst (Tick cb snapshot env st)) = Some n) \<and>
            (\<forall>p. bounds st = Some p \<and> \<not> some_corner_below_threshold (heap st ! p) nb \<and>
                 frame (heap st ! p) < GetFrame snapshot \<longrightarrow>
               (let cr = CalculateCrossedLanes cb (corner (corners (heap st ! p)) 0) (corner (corners nb) 0) @
                         CalculateCrossedLanes cb (corner (corners (heap st ! p)) 1) (corner (corners nb) 1) @
                         CalculateCrossedLanes cb (corner (corners (heap st ! p)) 2) (corner (corners nb) 2) @
                         CalculateCrossedLanes cb (corner (corners (heap st ! p)) 3) (corner (corners nb) 3);
                    ev = \<lparr>ev_frame = ts_frame (GetTimestamp snapshot),
                          ev_timestamp = elapsed_seconds (GetTimestamp snapshot),
                          ev_transform = transform ps, ev_parent = parent cb,
                          crossed_lane_markings = cr\<rparr>
                in Tick cb snapshot [] st =
                     (st\<lparr>heap := heap st @ [nb], bounds := Some n\<rparr>,
                      if cr = [] then None else Some ev,
                      if cr = [] then Returned
                      else (case callback cb ev of None \<Rightarrow> Returned | Some x \<Rightarrow> Thrown x)))) \<and>
            (\<exists>k. let sb = interfere_all (take k env) (st\<lparr>heap := heap st @ [nb]\<rparr>)
                 in Tick cb snapshot env st = (sb, None, Returned) \<or>
                    (bounds sb = None \<and> Tick cb snapshot env st = (sb\<lparr>bounds := Some n\<rparr>, None, Returned)) \<or>
                    (\<exists>p. bounds sb = Some p \<and>
                       (let cr = CalculateCrossedLanes cb (corner (corners (heap sb ! p)) 0) (corner (corners nb) 0) @
                                 CalculateCrossedLanes cb (corner (corners (heap sb ! p)) 1) (corner (corners nb) 1) @
                                 CalculateCrossedLanes cb (corner (corners (heap sb ! p)) 2) (corner (corners nb) 2) @
                                 CalculateCrossedLanes cb (corner (corners (heap sb ! p)) 3) (corner (corners nb) 3);
                            ev = \<lparr>ev_frame = ts_frame (GetTimestamp snapshot),
                                  ev_timestamp = elapsed_seconds (GetTimestamp snapshot),
                                  ev_transform = transform ps, ev_parent = parent cb,
                                  crossed_lane_markings = cr\<rparr>
                        in Tick cb snapshot env st =
                             (sb\<lparr>bounds := Some n\<rparr>,
                              if cr = [] then None else Some ev,
                              if cr = [] then Returned
                              else (case callback cb ev of None \<Rightarrow> Returned | Some x \<Rightarrow> Thrown x)))))"
proof -
  define nb where "nb = MakeBounds cb (GetFrame snapshot) (transform ps)"
  define n where "n = length (heap st)"
  from Tick_effect[OF wf found, of env] obtain k where
    k: "heap (interfere_all (take k env) (st\<lparr>heap := heap st @ [nb]\<rparr>)) ! n = nb"
       "n < length (heap (interfere_all (take k env) (st\<lparr>heap := heap st @ [nb]\<rparr>)))"
       "Tick cb snapshot env st = (interfere_all (take k env) (st\<lparr>heap := heap st @ [nb]\<rparr>), None, Returned) \<or>
        (bounds (interfere_all (take k env) (st\<lparr>heap := heap st @ [nb]\<rparr>)) = None \<and>
         Tick cb snapshot env st = ((interfere_all (take k env) (st\<lparr>heap := heap st @ [nb]\<rparr>))\<lparr>bounds := Some n\<rparr>, None, Returned)) \<or>
        (\<exists>p. bounds (interfere_all (take k env) (st\<lparr>heap := heap st @ [nb]\<rparr>)) = Some p \<and>
             p < length (heap (interfere_all (take k env) (st\<lparr>heap := heap st @ [nb]\<rparr>))) \<and>
             frame (heap (interfere_all (take k env) (st\<lparr>heap := heap st @ [nb]\<rparr>)) ! p) < frame nb \<and>
             Tick cb snapshot env st =
               Tick_crossing cb snapshot ps p n ((interfere_all (take k env) (st\<lparr>heap := heap st @ [nb]\<rparr>))\<lparr>bounds := Some n\<rparr>))"
    unfolding Let_def nb_def n_def by blast
  define sb where "sb = interfere_all (take k env) (st\<lparr>heap := heap st @ [nb]\<rparr>)"
  note k' = k[folded sb_def]
  have general: "\<exists>k. let sb = interfere_all (take k env) (st\<lparr>heap := heap st @ [nb]\<rparr>)
                 in Tick cb snapshot env st = (sb, None, Returned) \<or>
                    (bounds sb = None \<and> Tick cb snapshot env st = (sb\<lparr>bounds := Some n\<rparr>, None, Returned)) \<or>
                    (\<exists>p. bounds sb = Some p \<and>
                       (let cr = CalculateCrossedLanes cb (corner (corners (heap sb ! p)) 0) (corner (corners nb) 0) @
                                 CalculateCrossedLanes cb (corner (corners (heap sb ! p)) 1) (corner (corners nb) 1) @
                                 CalculateCrossedLanes cb (corner (corners (heap sb ! p)) 2) (corner (corners nb) 2) @
                                 CalculateCrossedLanes cb (corner (corners (heap sb ! p)) 3) (corner (corners nb) 3);
                            ev = \<lparr>ev_frame = ts_frame (GetTimestamp snapshot),
                                  ev_timestamp = elapsed_seconds (GetTimestamp snapshot),
                                  ev_transform = transform ps, ev_parent = parent cb,
                                  crossed_lane_markings = cr\<rparr>
                        in Tick cb snapshot env st =
                             (sb\<lparr>bounds := Some n\<rparr>,
                              if cr = [] then None else Some ev,
                              if cr = [] then Returned
                              else (case callback cb ev of None \<Rightarrow> Returned | Some x \<Rightarrow> Thrown x))))"
    apply (rule exI[of _ k])
    unfolding sb_def[symmetric] Let_def
    using k'(3) k'(1) by (auto simp: Tick_crossing_eq Let_def)
  have only_after: "bounds (fst (Tick cb snapshot env st)) = Some n"
    if "fst (snd (Tick cb snapshot env st)) = Some e" for e
    using k'(3) that by (auto simp: fst_Tick_crossing)
  have sequential: "Tick cb snapshot [] st =
         (let cr = CalculateCrossedLanes cb (corner (corners (heap st ! p)) 0) (corner (corners nb) 0) @
                         CalculateCrossedLanes cb (corner (corners (heap st ! p)) 1) (corner (corners nb) 1) @
                         CalculateCrossedLanes cb (corner (corners (heap st ! p)) 2) (corner (corners nb) 2) @
                         CalculateCrossedLanes cb (corner (corners (heap st ! p)) 3) (corner (corners nb) 3);
                    ev = \<lparr>ev_frame = ts_frame (GetTimestamp snapshot),
                          ev_timestamp = elapsed_seconds (GetTimestamp snapshot),
                          ev_transform = transform ps, ev_parent = parent cb,
                          crossed_lane_markings = cr\<rparr>
                in (st\<lparr>heap := heap st @ [nb], bounds := Some n\<rparr>,
                      if cr = [] then None else Some ev,
                      if cr = [] then Returned
                      else (case callback cb ev of None \<Rightarrow> Returned | Some x \<Rightarrow> Thrown x)))"
    if a: "bounds st = Some p \<and> \<not> some_corner_below_threshold (heap st ! p) nb \<and> frame (heap st ! p) < GetFrame snapshot" for p
  proof -
    have pl: "p < length (heap st)" using wf a by (simp add: wf_store_def)
    have fnb: "frame nb = GetFrame snapshot" by (simp add: nb_def frame_MakeBounds)
    have "Tick cb snapshot [] st = Tick_crossing cb snapshot ps p n (st\<lparr>heap := heap st @ [nb], bounds := Some n\<rparr>)"
      using found a pl
      by (simp add: Tick_def make_shared_def load_def Tick_moved_def Tick_commit_def nth_append
            fnb compare_exchange_def nb_def[symmetric] n_def[symmetric] not_le[symmetric])
    then show ?thesis using pl by (simp add: Tick_crossing_eq Let_def nth_append n_def)
  qed
  show ?thesis
    unfolding nb_def[symmetric] n_def[symmetric] Let_def
    using general only_after sequential unfolding Let_def by blast
qed

text \<open>
  Two instances, from the footprint \<open>P\<close> of frame 1 at the origin to the footprint \<open>Q\<close> of
  frame 2 at (5, 0, 0). A collaborator that reports \<open>''M''\<close> for the segment from \<open>P[2]\<close> to
  \<open>Q[2]\<close> and nothing else gives an event whose marking list is \<open>[''M'']\<close>; a collaborator that
  reports nothing gives no event, although the tick commits.
\<close>

theorem Tick_event_after_commit_witness:
  "wf_store \<lparr>heap = [square_at 1 0 0], bounds = Some 0\<rparr> \<and>
   \<not> some_corner_below_threshold (square_at 1 0 0) (square_at 2 5 0) \<and>
   frame (square_at 1 0 0) < GetFrame (snapshot_at 2 0 5 0) \<and>
   corner (corners (square_at 1 0 0)) 2 = \<lparr>loc_x = 1, loc_y = - 1, loc_z = 0\<rparr> \<and>
   corner (corners (square_at 2 5 0)) 2 = \<lparr>loc_x = 6, loc_y = - 1, loc_z = 0\<rparr> \<and>
   Tick (callback_with (crossing_only \<lparr>loc_x = 1, loc_y = - 1, loc_z = 0\<rparr> \<lparr>loc_x = 6, loc_y = - 1, loc_z = 0\<rparr>) returns)
        (snapshot_at 2 0 5 0) [] \<lparr>heap = [square_at 1 0 0], bounds = Some 0\<rparr> =
     (\<lparr>heap = [square_at 1 0 0, square_at 2 5 0], bounds = Some 1\<rparr>,
      Some \<lparr>ev_frame = 2, ev_timestamp = 0, ev_transform = pose 0 5 0, ev_parent = 7,
            crossed_lane_markings = [''M'']\<rparr>, Returned) \<and>
   Tick (callback_with never_crossing returns)
        (snapshot_at 2 0 5 0) [] \<lparr>heap = [square_at 1 0 0], bounds = Some 0\<rparr> =
     (\<lparr>heap = [square_at 1 0 0, square_at 2 5 0], bounds = Some 1\<rparr>, None, Returned)"
proof -
  let ?st = "\<lparr>heap = [square_at 1 0 0], bounds = Some 0\<rparr>"
  let ?P = "\<lparr>loc_x = 1, loc_y = - 1, loc_z = 0\<rparr>" and ?Q = "\<lparr>loc_x = 6, loc_y = - 1, loc_z = 0\<rparr>"
  have wf: "wf_store ?st" by (simp add: wf_store_def)
  have f: "Find (snapshot_at 2 0 5 0) (parent (callback_with lanes returns)) = Some \<lparr>transform = pose 0 5 0\<rparr>" for lanes
    by (simp add: snapshot_simps callback_simps)
  have moved: "\<not> some_corner_below_threshold (square_at 1 0 0) (square_at 2 5 0)"
    by (simp add: some_corner_below_threshold_iff corner_simps)
  have newer: "frame (square_at 1 0 0) < GetFrame (snapshot_at 2 0 5 0)"
    by (simp add: square_at_def snapshot_simps word_cmp)
  have c2: "corner (corners (square_at 1 0 0)) 2 = ?P" "corner (corners (square_at 2 5 0)) 2 = ?Q"
    by (simp_all add: square_at_def)
  have pre: "bounds ?st = Some 0 \<and>
      \<not> some_corner_below_threshold (heap ?st ! 0)
           (MakeBounds (callback_with lanes returns) (GetFrame (snapshot_at 2 0 5 0)) (transform \<lparr>transform = pose 0 5 0\<rparr>)) \<and>
      frame (heap ?st ! 0) < GetFrame (snapshot_at 2 0 5 0)" for lanes
    by (simp add: MakeBounds_square snapshot_simps some_corner_below_threshold_iff corner_simps word_cmp)
  from Tick_event_after_commit[OF wf f, where env = "[]" and lanes1 = "crossing_only ?P ?Q"] pre[of "crossing_only ?P ?Q"]
  have t1: "Tick (callback_with (crossing_only ?P ?Q) returns) (snapshot_at 2 0 5 0) [] ?st =
     (\<lparr>heap = [square_at 1 0 0, square_at 2 5 0], bounds = Some 1\<rparr>,
      Some \<lparr>ev_frame = 2, ev_timestamp = 0, ev_transform = pose 0 5 0, ev_parent = 7,
            crossed_lane_markings = [''M'']\<rparr>, Returned)"
    apply (simp only: Let_def)
    apply (elim conjE)
    apply (drule spec[of _ 0])
    apply (simp add: MakeBounds_square callback_simps snapshot_simps)
    apply (simp add: square_at_def crossing_only_def returns_def)
    done
  from Tick_event_after_commit[OF wf f, where env = "[]" and lanes1 = "never_crossing"] pre[of "never_crossing"]
  have t2: "Tick (callback_with never_crossing returns) (snapshot_at 2 0 5 0) [] ?st =
     (\<lparr>heap = [square_at 1 0 0, square_at 2 5 0], bounds = Some 1\<rparr>, None, Returned)"
    apply (simp only: Let_def)
    apply (elim conjE)
    apply (drule spec[of _ 0])
    apply (simp add: MakeBounds_square callback_simps snapshot_simps never_crossing_def)
    done
  show ?thesis using wf moved newer c2 t1 t2 by simp
qed

text \<open>
  Claim C4. On an empty frame store, a tick whose first compare-and-swap is not preceded
  by the commit of another thread installs its snapshot and emits no event, whatever the
  transform of the actor; when another thread committed an object \<open>b\<close> first, the swap
  fails and the tick goes on with the movement check against \<open>b\<close> (\<open>Tick_moved\<close>).
\<close>

theorem Tick_first_is_baseline:
  assumes found: "Find snapshot (parent cb) = Some ps" and empty: "bounds st = None"
  shows "let nb = MakeBounds cb (GetFrame snapshot) (transform ps); n = length (heap st)
         in (next_interference env = Quiet \<longrightarrow>
               Tick cb snapshot env st = (st\<lparr>heap := heap st @ [nb], bounds := Some n\<rparr>, None, Returned)) \<and>
            (\<forall>b. next_interference env = Commits b \<longrightarrow>
               Tick cb snapshot env st =
                 Tick_moved cb snapshot ps (Suc n) n (tl env) \<lparr>heap = heap st @ [nb, b], bounds = Some (Suc n)\<rparr>)"
  using found empty
  by (simp add: Let_def Tick_def make_shared_def load_def compare_exchange_def)

text \<open>
  Both cases from the empty store. In the second one another thread has committed frame 1
  at the origin; the tick of frame 2, five units away, falls through, commits and emits.
\<close>

theorem Tick_first_is_baseline_witness:
  "Find (snapshot_at 2 0 5 0) (parent (callback_with always_crossing returns)) = Some \<lparr>transform = pose 0 5 0\<rparr> \<and>
   bounds empty_store = None \<and>
   Tick (callback_with always_crossing returns) (snapshot_at 2 0 5 0) [] empty_store =
     (\<lparr>heap = [square_at 2 5 0], bounds = Some 0\<rparr>, None, Returned) \<and>
   Tick (callback_with always_crossing returns) (snapshot_at 2 0 5 0) [Commits (square_at 1 0 0)] empty_store =
     (\<lparr>heap = [square_at 2 5 0, square_at 1 0 0], bounds = Some 0\<rparr>,
      Some \<lparr>ev_frame = 2, ev_timestamp = 0, ev_transform = pose 0 5 0, ev_parent = 7,
            crossed_lane_markings = [''M'', ''M'', ''M'', ''M'']\<rparr>, Returned)"
proof -
  let ?cb = "callback_with always_crossing returns"
  have f: "Find (snapshot_at 2 0 5 0) (parent ?cb) = Some \<lparr>transform = pose 0 5 0\<rparr>"
    by (simp add: snapshot_simps callback_simps)
  have e: "bounds empty_store = None" by (simp add: empty_store_def)
  from Tick_first_is_baseline[OF f e, of "[]"]
  have t1: "Tick ?cb (snapshot_at 2 0 5 0) [] empty_store =
     (\<lparr>heap = [square_at 2 5 0], bounds = Some 0\<rparr>, None, Returned)"
    by (simp add: Let_def snapshot_simps MakeBounds_square empty_store_def)
  from Tick_first_is_baseline[OF f e, of "[Commits (square_at 1 0 0)]"]
  have "Tick ?cb (snapshot_at 2 0 5 0) [Commits (square_at 1 0 0)] empty_store =
     Tick_moved ?cb (snapshot_at 2 0 5 0) \<lparr>transform = pose 0 5 0\<rparr> 1 0 []
       \<lparr>heap = [square_at 2 5 0, square_at 1 0 0], bounds = Some 1\<rparr>"
    by (simp add: Let_def snapshot_simps MakeBounds_square empty_store_def)
  also have "\<dots> = (\<lparr>heap = [square_at 2 5 0, square_at 1 0 0], bounds = Some 0\<rparr>,
      Some \<lparr>ev_frame = 2, ev_timestamp = 0, ev_transform = pose 0 5 0, ev_parent = 7,
            crossed_lane_markings = [''M'', ''M'', ''M'', ''M'']\<rparr>, Returned)"
    by (simp add: tick_simps corner_simps) (simp add: square_at_def always_crossing_def returns_def)
  finally show ?thesis using f e t1 by simp
qed

text \<open>
  Claim C5. \<open>Rotate\<close> is the specification's corner projector (degrees to radians, the 2D
  rotation matrix on x and y, z unchanged) and \<open>MakeBounds\<close> is the specification's
  builder: the centre is the transform's location plus the box's centre offset and the
  corners are the centre plus the rotated offsets, in the order +x+y, -x+y, +x-y, -x-y.
\<close>

theorem Rotate_and_MakeBounds_as_specified:
  "Rotate yaw_degrees offset = rotate_spec yaw_degrees offset \<and>
   loc_z (Rotate yaw_degrees offset) = loc_z offset \<and>
   MakeBounds cb frm tf = build_spec frm tf (parent_bounding_box cb)"
proof -
  have r: "Rotate a v = rotate_spec a v" for a v
    by (simp add: Rotate_def rotate_spec_def mat_vec_def rotation_matrix_def radians_def Let_def)
  show ?thesis
    by (simp add: r MakeBounds_def build_spec_def spec_corner_def Let_def)
       (simp add: rotate_spec_def mat_vec_def rotation_matrix_def)
qed

text \<open>
  Claim C6 says that every exception raised by the user callback is caught by the handler.
  The handler of lines 169 to 173 has one \<^verbatim>\<open>catch (const std::exception &)\<close> clause, so
  an exception of another type passes through it: below the callback throws such an
  object, the handler logs nothing and the exception reaches the scheduler.
\<close>

theorem on_tick_non_std_exception_counterexample:
  "on_tick (callback_with always_crossing (throws NonStdException)) (snapshot_at 2 0 5 0) []
      (\<lparr>heap = [square_at 1 0 0], bounds = Some 0\<rparr>, []) =
     ((\<lparr>heap = [square_at 1 0 0, square_at 2 5 0], bounds = Some 1\<rparr>, []),
      Some \<lparr>ev_frame = 2, ev_timestamp = 0, ev_transform = pose 0 5 0, ev_parent = 7,
            crossed_lane_markings = [''M'', ''M'', ''M'', ''M'']\<rparr>,
      Thrown NonStdException)"
  by (simp add: on_tick_def moving_tick throws_def)

text \<open>
  Claim C6, amended. For a well-formed store:
  \<^item> when the tick ends with an exception derived from \<^verbatim>\<open>std::exception\<close>, the handler
    returns normally and has logged one entry, the text \<open>LaneInvasionSensor:\<close> and the
    \<^verbatim>\<open>what()\<close> of the exception;
  \<^item> when the user callback throws nothing but exceptions derived from \<^verbatim>\<open>std::exception\<close>,
    the handler always returns normally;
  \<^item> the store the handler leaves and the event handed to the callback are those of a tick
    whose callback returns normally, so the ticks that follow start from the same state.
\<close>

theorem on_tick_catches_std_exceptions:
  assumes wf: "wf_store st"
  shows "(\<forall>w. snd (snd (Tick cb snapshot env st)) = Thrown (StdException w) \<longrightarrow>
            on_tick cb snapshot env (st, lg) =
              ((fst (Tick cb snapshot env st), lg @ [[''LaneInvasionSensor:'', w]]),
               fst (snd (Tick cb snapshot env st)), Returned)) \<and>
         ((\<forall>ev. callback cb ev \<noteq> Some NonStdException) \<longrightarrow>
            snd (snd (on_tick cb snapshot env (st, lg))) = Returned) \<and>
         fst (fst (on_tick cb snapshot env (st, lg))) = fst (Tick (cb\<lparr>callback := \<lambda>ev. None\<rparr>) snapshot env st) \<and>
         fst (snd (on_tick cb snapshot env (st, lg))) =
           fst (snd (Tick (cb\<lparr>callback := \<lambda>ev. None\<rparr>) snapshot env st))"
proof (intro conjI allI impI)
  fix w assume "snd (snd (Tick cb snapshot env st)) = Thrown (StdException w)"
  then show "on_tick cb snapshot env (st, lg) =
              ((fst (Tick cb snapshot env st), lg @ [[''LaneInvasionSensor:'', w]]),
               fst (snd (Tick cb snapshot env st)), Returned)"
    by (cases "Tick cb snapshot env st") (simp add: on_tick_def)
next
  assume std: "\<forall>ev. callback cb ev \<noteq> Some NonStdException"
  from Tick_status[OF wf, of cb snapshot env]
  show "snd (snd (on_tick cb snapshot env (st, lg))) = Returned"
  proof
    assume "snd (snd (Tick cb snapshot env st)) = Returned"
    then show ?thesis by (cases "Tick cb snapshot env st") (simp add: on_tick_def)
  next
    assume "\<exists>ev e. callback cb ev = Some e \<and> snd (snd (Tick cb snapshot env st)) = Thrown e"
    then obtain ev e where e: "callback cb ev = Some e" "snd (snd (Tick cb snapshot env st)) = Thrown e"
      by blast
    then obtain w where "e = StdException w" using std by (cases e) auto
    then show ?thesis using e by (cases "Tick cb snapshot env st") (simp add: on_tick_def)
  qed
next
  show "fst (fst (on_tick cb snapshot env (st, lg))) = fst (Tick (cb\<lparr>callback := \<lambda>ev. None\<rparr>) snapshot env st)"
    unfolding Tick_callback_update[THEN conjunct1]
    by (cases "Tick cb snapshot env st") (simp add: on_tick_def split: status.splits exn.splits)
  show "fst (snd (on_tick cb snapshot env (st, lg))) =
           fst (snd (Tick (cb\<lparr>callback := \<lambda>ev. None\<rparr>) snapshot env st))"
    unfolding Tick_callback_update[THEN conjunct2]
    by (cases "Tick cb snapshot env st") (simp add: on_tick_def split: status.splits exn.splits)
qed

text \<open>An instance: the callback throws a \<^verbatim>\<open>std::exception\<close> whose \<^verbatim>\<open>what()\<close> is \<open>boom\<close>.\<close>

theorem on_tick_catches_std_exceptions_witness:
  "wf_store \<lparr>heap = [square_at 1 0 0], bounds = Some 0\<rparr> \<and>
   snd (snd (Tick (callback_with always_crossing (throws (StdException ''boom''))) (snapshot_at 2 0 5 0) []
               \<lparr>heap = [square_at 1 0 0], bounds = Some 0\<rparr>)) = Thrown (StdException ''boom'') \<and>
   on_tick (callback_with always_crossing (throws (StdException ''boom''))) (snapshot_at 2 0 5 0) []
      (\<lparr>heap = [square_at 1 0 0], bounds = Some 0\<rparr>, []) =
     ((\<lparr>heap = [square_at 1 0 0, square_at 2 5 0], bounds = Some 1\<rparr>, [[''LaneInvasionSensor:'', ''boom'']]),
      Some \<lparr>ev_frame = 2, ev_timestamp = 0, ev_transform = pose 0 5 0, ev_parent = 7,
            crossed_lane_markings = [''M'', ''M'', ''M'', ''M'']\<rparr>,
      Returned)"
proof -
  let ?st = "\<lparr>heap = [square_at 1 0 0], bounds = Some 0\<rparr>"
  let ?cb = "callback_with always_crossing (throws (StdException ''boom''))"
  have wf: "wf_store ?st" by (simp add: wf_store_def)
  have thrown: "snd (snd (Tick ?cb (snapshot_at 2 0 5 0) [] ?st)) = Thrown (StdException ''boom'')"
    by (simp add: moving_tick throws_def)
  from on_tick_catches_std_exceptions[OF wf, where cb = ?cb and snapshot = "snapshot_at 2 0 5 0"
      and env = "[]" and lg = "[]"] thrown
  have "on_tick ?cb (snapshot_at 2 0 5 0) [] (?st, []) =
     ((fst (Tick ?cb (snapshot_at 2 0 5 0) [] ?st), [] @ [[''LaneInvasionSensor:'', ''boom'']]),
      fst (snd (Tick ?cb (snapshot_at 2 0 5 0) [] ?st)), Returned)"
    by blast
  then show ?thesis using wf thrown by (simp add: moving_tick)
qed

text \<open>
  Claim C7 says that \<^verbatim>\<open>stop()\<close> removes the active registration if one exists. \<^verbatim>\<open>Stop\<close>
  removes it only when \<^verbatim>\<open>TryLock\<close> yields the episode (the guard of line 194). Below, the
  sensor listens and gets id 1, beside another handler registered under id 9; then it
  stops while the episode cannot be locked: the stored id is 0 and the scheduler still holds
  the registration under id 1.
\<close>

theorem Stop_on_dead_episode_counterexample:
  "callback_id (fst (Listen (vehicle_sensor 0) returns 1
      (episode_with [(9, callback_with always_crossing returns)]) [])) = 1 \<and>
   registered_ids (fst (snd (Listen (vehicle_sensor 0) returns 1
      (episode_with [(9, callback_with always_crossing returns)]) []))) = [9, 1] \<and>
   callback_id (fst (Stop
      (fst (Listen (vehicle_sensor 0) returns 1 (episode_with [(9, callback_with always_crossing returns)]) []))
      False
      (fst (snd (Listen (vehicle_sensor 0) returns 1 (episode_with [(9, callback_with always_crossing returns)]) []))))) = 0 \<and>
   registered_ids (snd (Stop
      (fst (Listen (vehicle_sensor 0) returns 1 (episode_with [(9, callback_with always_crossing returns)]) []))
      False
      (fst (snd (Listen (vehicle_sensor 0) returns 1 (episode_with [(9, callback_with always_crossing returns)]) []))))) = [9, 1]"
  by (simp add: Listen_def Stop_def TryLock_def Let_def RegisterOnTickEvent_def registered_ids_def
        vehicle_sensor_def episode_with_def)

text \<open>
  Claim C7, amended. Let \<open>S\<close> be the ids of the sensor: the one in \<^verbatim>\<open>_callback_id\<close>, when
  it is not 0, and those the scheduler hands out to its \<^verbatim>\<open>listen()\<close> calls. Assume that
  of the ids in \<open>S\<close> the scheduler holds just the current one, wherever it stands among the
  registrations of other detectors; that the ids in \<open>S\<close> are different from each other and
  those handed out are not 0; and that other detectors register and remove under ids outside
  \<open>S\<close>. Then, as long as the episode can be locked:
  \<^item> after any sequence of \<^verbatim>\<open>listen()\<close> and \<^verbatim>\<open>stop()\<close> calls of the sensor, interleaved
    with registrations and removals by other detectors, the scheduler holds of the ids in
    \<open>S\<close> just the one in \<^verbatim>\<open>_callback_id\<close>, and none when that is 0;
  \<^item> the registrations under ids outside \<open>S\<close> are those the other detectors alone would
    have left, in the same order;
  \<^item> \<^verbatim>\<open>listen()\<close> on a sensor attached to a vehicle registers the new handler first and
    removes the previous registration, if there is one, from the episode that already holds
    the new one;
  \<^item> two \<^verbatim>\<open>listen()\<close> calls leave exactly the second registration;
  \<^item> \<^verbatim>\<open>stop()\<close> removes the registration of the sensor and nothing else, and sets
    \<^verbatim>\<open>_callback_id\<close> to 0; with \<^verbatim>\<open>_callback_id\<close> equal to 0 it changes nothing, and a second
    \<^verbatim>\<open>stop()\<close> changes nothing either.

  When the episode cannot be locked, \<^verbatim>\<open>stop()\<close> sets \<^verbatim>\<open>_callback_id\<close> to 0 and removes
  nothing.
\<close>

theorem one_registration_per_sensor:
  fixes episode :: "'m Episode"
  assumes own: "filter (\<lambda>i. i \<in> set (own_registration sensor @ listen_ids ops)) (registered_ids episode) =
                  own_registration sensor"
    and fresh: "distinct (own_registration sensor @ listen_ids ops)"
    and nonzero: "0 \<notin> set (listen_ids ops)"
    and foreign: "set (other_ids ops) \<inter> set (own_registration sensor @ listen_ids ops) = {}"
  shows "filter (\<lambda>i. i \<in> set (own_registration sensor @ listen_ids ops))
           (registered_ids (fst (snd (run_ops ops (sensor, episode, lg))))) =
           own_registration (fst (run_ops ops (sensor, episode, lg))) \<and>
         filter (\<lambda>i. i \<notin> set (own_registration sensor @ listen_ids ops))
           (registered_ids (fst (snd (run_ops ops (sensor, episode, lg))))) =
           filter (\<lambda>i. i \<notin> set (own_registration sensor @ listen_ids ops))
             (registered_ids (run_others ops episode)) \<and>
         (\<forall>v f i. as_vehicle (sensor_parent sensor) = Some v \<longrightarrow>
            Listen sensor f i episode lg =
              (let cb = \<lparr>parent = vehicle_id v, parent_bounding_box = vehicle_bounding_box v,
                         CalculateCrossedLanes = GetCurrentMap episode, callback = f\<rparr>;
                   installed = snd (RegisterOnTickEvent episode i cb)
               in (sensor\<lparr>callback_id := i\<rparr>,
                   if callback_id sensor \<noteq> 0 then RemoveOnTickEvent installed (callback_id sensor) else installed,
                   lg))) \<and>
         (\<forall>v f1 f2 i1 i2. as_vehicle (sensor_parent sensor) = Some v \<and>
              ops = [DoListen f1 i1, DoListen f2 i2] \<longrightarrow>
            filter (\<lambda>i. i \<in> set (own_registration sensor @ [i1, i2]))
              (registered_ids (fst (snd (run_ops ops (sensor, episode, lg))))) = [i2]) \<and>
         filter (\<lambda>i. i \<in> set (own_registration sensor @ listen_ids ops))
           (registered_ids (snd (Stop sensor True episode))) = [] \<and>
         registered_ids (snd (Stop sensor True episode)) =
           (if callback_id sensor \<noteq> 0
            then filter (\<lambda>i. i \<noteq> callback_id sensor) (registered_ids episode)
            else registered_ids episode) \<and>
         (\<forall>alive. callback_id (fst (Stop sensor alive episode)) = 0 \<and>
            (callback_id sensor = 0 \<longrightarrow> Stop sensor alive episode = (sensor, episode)) \<and>
            Stop (fst (Stop sensor True episode)) alive (snd (Stop sensor True episode)) =
              Stop sensor True episode) \<and>
         Stop sensor False episode = (sensor\<lparr>callback_id := 0\<rparr>, episode)"
proof (intro conjI allI impI)
  have sub: "set (own_registration sensor) \<union> set (listen_ids ops) \<subseteq> set (own_registration sensor @ listen_ids ops)"
    by simp
  have foreign': "set (other_ids ops) \<inter> set (own_registration sensor @ listen_ids ops) = {}"
    using foreign .
  show main: "filter (\<lambda>i. i \<in> set (own_registration sensor @ listen_ids ops))
           (registered_ids (fst (snd (run_ops ops (sensor, episode, lg))))) =
           own_registration (fst (run_ops ops (sensor, episode, lg)))"
    using sub own fresh nonzero foreign' by (rule run_ops_own)
  show "filter (\<lambda>i. i \<notin> set (own_registration sensor @ listen_ids ops))
           (registered_ids (fst (snd (run_ops ops (sensor, episode, lg))))) =
           filter (\<lambda>i. i \<notin> set (own_registration sensor @ listen_ids ops))
             (registered_ids (run_others ops episode))"
    using sub nonzero refl by (rule run_ops_others)
  show "filter (\<lambda>i. i \<in> set (own_registration sensor @ listen_ids ops))
           (registered_ids (snd (Stop sensor True episode))) = []"
    using own by (rule Stop_own)
  show "registered_ids (snd (Stop sensor True episode)) =
           (if callback_id sensor \<noteq> 0
            then filter (\<lambda>i. i \<noteq> callback_id sensor) (registered_ids episode)
            else registered_ids episode)"
    by (rule registered_ids_Stop)
  show "Stop sensor False episode = (sensor\<lparr>callback_id := 0\<rparr>, episode)"
    by (simp add: Stop_def Let_def TryLock_def)
  {
    fix v i1 i2 and f1 f2 :: "'m LaneInvasionEvent \<Rightarrow> exn option"
    assume a: "as_vehicle (sensor_parent sensor) = Some v \<and> ops = [DoListen f1 i1, DoListen f2 i2]"
    then have ops: "ops = [DoListen f1 i1, DoListen f2 i2]" by simp
    have nz: "i2 \<noteq> 0" using nonzero ops by auto
    have "callback_id (fst (run_ops ops (sensor, episode, lg))) = i2"
      using a by (simp add: Listen_def Let_def RegisterOnTickEvent_def)
    then have "own_registration (fst (run_ops ops (sensor, episode, lg))) = [i2]"
      using nz by (simp add: own_registration_def)
    with main show "filter (\<lambda>i. i \<in> set (own_registration sensor @ [i1, i2]))
              (registered_ids (fst (snd (run_ops ops (sensor, episode, lg))))) = [i2]"
      using ops by simp
  }
next
  fix v f i assume "as_vehicle (sensor_parent sensor) = Some v"
  then show "Listen sensor f i episode lg =
              (let cb = \<lparr>parent = vehicle_id v, parent_bounding_box = vehicle_bounding_box v,
                         CalculateCrossedLanes = GetCurrentMap episode, callback = f\<rparr>;
                   installed = snd (RegisterOnTickEvent episode i cb)
               in (sensor\<lparr>callback_id := i\<rparr>,
                   if callback_id sensor \<noteq> 0 then RemoveOnTickEvent installed (callback_id sensor) else installed,
                   lg))"
    by (simp add: Listen_def Let_def RegisterOnTickEvent_def)
next
  fix alive
  show "callback_id (fst (Stop sensor alive episode)) = 0"
    by (rule callback_id_Stop)
  show "Stop (fst (Stop sensor True episode)) alive (snd (Stop sensor True episode)) = Stop sensor True episode"
    by (simp add: Stop_def Let_def TryLock_def)
next
  fix alive assume "callback_id sensor = 0"
  then show "Stop sensor alive episode = (sensor, episode)"
    by (simp add: Stop_def Let_def TryLock_def)
qed

text \<open>
  An instance. The sensor is registered under id 5 and another handler, registered after
  it, under id 9. The sensor listens (id 1), a third handler registers (id 7), the sensor
  listens again (id 2), the handler under id 9 is removed, and the sensor stops twice. Also:
  two \<^verbatim>\<open>listen()\<close> calls in a row leave the registrations 9 and 2.
\<close>

theorem one_registration_per_sensor_witness:
  "filter (\<lambda>i. i \<in> set (own_registration (vehicle_sensor 5) @
       listen_ids [DoListen returns 1, OtherRegisters 7 (callback_with never_crossing returns),
                   DoListen (throws NonStdException) 2, OtherRemoves 9, DoStop, DoStop]))
     (registered_ids (episode_with [(5, callback_with always_crossing returns),
                                    (9, callback_with always_crossing returns)])) =
     own_registration (vehicle_sensor 5) \<and>
   distinct (own_registration (vehicle_sensor 5) @
       listen_ids [DoListen returns 1, OtherRegisters 7 (callback_with never_crossing returns),
                   DoListen (throws NonStdException) 2, OtherRemoves 9, DoStop, DoStop]) \<and>
   0 \<notin> set (listen_ids [DoListen returns 1, OtherRegisters 7 (callback_with never_crossing returns),
                   DoListen (throws NonStdException) 2, OtherRemoves 9, DoStop, DoStop]) \<and>
   set (other_ids [DoListen returns 1, OtherRegisters 7 (callback_with never_crossing returns),
                   DoListen (throws NonStdException) 2, OtherRemoves 9, DoStop, DoStop]) \<inter>
     set (own_registration (vehicle_sensor 5) @
       listen_ids [DoListen returns 1, OtherRegisters 7 (callback_with never_crossing returns),
                   DoListen (throws NonStdException) 2, OtherRemoves 9, DoStop, DoStop]) = {} \<and>
   registered_ids (fst (snd (run_ops [DoListen returns 1, OtherRegisters 7 (callback_with never_crossing returns),
                   DoListen (throws NonStdException) 2]
      (vehicle_sensor 5, episode_with [(5, callback_with always_crossing returns),
                                       (9, callback_with always_crossing returns)], [])))) = [9, 7, 2] \<and>
   registered_ids (fst (snd (run_ops [DoListen returns 1, OtherRegisters 7 (callback_with never_crossing returns),
                   DoListen (throws NonStdException) 2, OtherRemoves 9, DoStop, DoStop]
      (vehicle_sensor 5, episode_with [(5, callback_with always_crossing returns),
                                       (9, callback_with always_crossing returns)], [])))) = [7] \<and>
   own_registration (fst (run_ops [DoListen returns 1, OtherRegisters 7 (callback_with never_crossing returns),
                   DoListen (throws NonStdException) 2, OtherRemoves 9, DoStop, DoStop]
      (vehicle_sensor 5, episode_with [(5, callback_with always_crossing returns),
                                       (9, callback_with always_crossing returns)], []))) = [] \<and>
   registered_ids (fst (snd (run_ops [DoListen returns 1, DoListen (throws NonStdException) 2]
      (vehicle_sensor 5, episode_with [(5, callback_with always_crossing returns),
                                       (9, callback_with always_crossing returns)], [])))) = [9, 2]"
proof -
  let ?ep = "episode_with [(5, callback_with always_crossing returns), (9, callback_with always_crossing returns)]"
  let ?ops = "[DoListen returns 1, OtherRegisters 7 (callback_with never_crossing returns),
               DoListen (throws NonStdException) 2, OtherRemoves 9, DoStop, DoStop]"
  have own: "filter (\<lambda>i. i \<in> set (own_registration (vehicle_sensor 5) @ listen_ids ?ops)) (registered_ids ?ep) =
               own_registration (vehicle_sensor 5)"
    by (simp add: registered_ids_def episode_with_def own_registration_def vehicle_sensor_def)
  have fresh: "distinct (own_registration (vehicle_sensor 5) @ listen_ids ?ops)"
    by (simp add: own_registration_def vehicle_sensor_def)
  have nonzero: "0 \<notin> set (listen_ids ?ops)" by simp
  have foreign: "set (other_ids ?ops) \<inter> set (own_registration (vehicle_sensor 5) @ listen_ids ?ops) = {}"
    by (simp add: own_registration_def vehicle_sensor_def)
  have mid: "registered_ids (fst (snd (run_ops [DoListen returns 1, OtherRegisters 7 (callback_with never_crossing returns),
                   DoListen (throws NonStdException) 2] (vehicle_sensor 5, ?ep, [])))) = [9, 7, 2]"
    by (simp add: Listen_def Let_def RegisterOnTickEvent_def RemoveOnTickEvent_def registered_ids_def
          vehicle_sensor_def episode_with_def)
  have two: "registered_ids (fst (snd (run_ops [DoListen returns 1, DoListen (throws NonStdException) 2]
                   (vehicle_sensor 5, ?ep, [])))) = [9, 2]"
    by (simp add: Listen_def Let_def RegisterOnTickEvent_def RemoveOnTickEvent_def registered_ids_def
          vehicle_sensor_def episode_with_def)
  have fin: "registered_ids (fst (snd (run_ops ?ops (vehicle_sensor 5, ?ep, [])))) = [7]"
    by (simp add: Listen_def Stop_def TryLock_def Let_def RegisterOnTickEvent_def RemoveOnTickEvent_def
          registered_ids_def vehicle_sensor_def episode_with_def)
  from one_registration_per_sensor[OF own fresh nonzero foreign, of "[]"]
  have "filter (\<lambda>i. i \<in> set (own_registration (vehicle_sensor 5) @ listen_ids ?ops))
           (registered_ids (fst (snd (run_ops ?ops (vehicle_sensor 5, ?ep, []))))) =
           own_registration (fst (run_ops ?ops (vehicle_sensor 5, ?ep, [])))"
    by (rule conjunct1)
  then have none: "own_registration (fst (run_ops ?ops (vehicle_sensor 5, ?ep, []))) = []"
    unfolding fin by (simp add: own_registration_def vehicle_sensor_def)
  show ?thesis using own fresh nonzero foreign mid fin none two by (intro conjI)
qed

text \<open>
  Claim C8. When the world snapshot does not hold the tracked actor, the tick leaves the
  store as it is, emits no event and returns normally.
\<close>

theorem Tick_without_actor:
  assumes "Find snapshot (parent cb) = None"
  shows "Tick cb snapshot env st = (st, None, Returned)"
  using assms by (simp add: Tick_def)

text \<open>An instance: a world snapshot with no actor at all.\<close>

theorem Tick_without_actor_witness:
  "Find (snapshot_without 4) (parent (callback_with always_crossing returns)) = None \<and>
   Tick (callback_with always_crossing returns) (snapshot_without 4) [] \<lparr>heap = [square_at 1 0 0], bounds = Some 0\<rparr> =
     (\<lparr>heap = [square_at 1 0 0], bounds = Some 0\<rparr>, None, Returned)"
proof -
  have h: "Find (snapshot_without 4) (parent (callback_with always_crossing returns)) = None"
    by (simp add: snapshot_simps)
  from Tick_without_actor[OF h] h show ?thesis by simp
qed

text \<open>
  Claim C9. The movement check is made once, against the snapshot loaded before the loop.
  Below, frame 1 at the origin is committed and a tick of frame 3 at (5, 0, 0) has passed
  the movement check when another thread commits frame 2 at (5, 0, 0). The swap fails,
  \<open>prev\<close> becomes the object of frame 2, and the next swap succeeds: the tick has replaced
  object 2 although none of the four corners moved between it and the new snapshot, and the
  collaborator was asked about four segments of length 0. Run alone on a store that holds
  frame 2 at (5, 0, 0), the same tick stops at the movement check.
\<close>

theorem Tick_commits_against_refreshed_prev_unchecked:
  "Tick (callback_with always_crossing returns) (snapshot_at 3 0 5 0) [Commits (square_at 2 5 0)]
        \<lparr>heap = [square_at 1 0 0], bounds = Some 0\<rparr> =
     (\<lparr>heap = [square_at 1 0 0, square_at 3 5 0, square_at 2 5 0], bounds = Some 1\<rparr>,
      Some \<lparr>ev_frame = 3, ev_timestamp = 0, ev_transform = pose 0 5 0, ev_parent = 7,
            crossed_lane_markings = [''still'', ''still'', ''still'', ''still'']\<rparr>, Returned) \<and>
   commit_loop 0 1 [Commits (square_at 2 5 0)] \<lparr>heap = [square_at 1 0 0, square_at 3 5 0], bounds = Some 0\<rparr> =
     (Committed 2, \<lparr>heap = [square_at 1 0 0, square_at 3 5 0, square_at 2 5 0], bounds = Some 1\<rparr>) \<and>
   displacement (square_at 2 5 0) (square_at 3 5 0) 0 < distance_threshold \<and>
   displacement (square_at 2 5 0) (square_at 3 5 0) 1 < distance_threshold \<and>
   displacement (square_at 2 5 0) (square_at 3 5 0) 2 < distance_threshold \<and>
   displacement (square_at 2 5 0) (square_at 3 5 0) 3 < distance_threshold \<and>
   Tick (callback_with always_crossing returns) (snapshot_at 3 0 5 0) []
        \<lparr>heap = [square_at 1 0 0, square_at 2 5 0], bounds = Some 1\<rparr> =
     (\<lparr>heap = [square_at 1 0 0, square_at 2 5 0, square_at 3 5 0], bounds = Some 1\<rparr>, None, Returned)"
proof -
  have loop: "commit_loop 0 1 [Commits (square_at 2 5 0)] \<lparr>heap = [square_at 1 0 0, square_at 3 5 0], bounds = Some 0\<rparr> =
     (Committed 2, \<lparr>heap = [square_at 1 0 0, square_at 3 5 0, square_at 2 5 0], bounds = Some 1\<rparr>)"
    by (simp add: store_simps word_cmp) (simp add: square_at_def word_cmp)
  have d: "displacement (square_at 2 5 0) (square_at 3 5 0) 0 < distance_threshold"
   "displacement (square_at 2 5 0) (square_at 3 5 0) 1 < distance_threshold"
   "displacement (square_at 2 5 0) (square_at 3 5 0) 2 < distance_threshold"
   "displacement (square_at 2 5 0) (square_at 3 5 0) 3 < distance_threshold"
    by (simp_all add: corner_simps)
  have t: "Tick (callback_with always_crossing returns) (snapshot_at 3 0 5 0) [Commits (square_at 2 5 0)]
        \<lparr>heap = [square_at 1 0 0], bounds = Some 0\<rparr> =
     (\<lparr>heap = [square_at 1 0 0, square_at 3 5 0, square_at 2 5 0], bounds = Some 1\<rparr>,
      Some \<lparr>ev_frame = 3, ev_timestamp = 0, ev_transform = pose 0 5 0, ev_parent = 7,
            crossed_lane_markings = [''still'', ''still'', ''still'', ''still'']\<rparr>, Returned)"
    by (simp add: tick_simps MakeBounds_square corner_simps)
       (simp add: square_at_def always_crossing_def returns_def word_cmp store_simps)
  have s: "Tick (callback_with always_crossing returns) (snapshot_at 3 0 5 0) []
        \<lparr>heap = [square_at 1 0 0, square_at 2 5 0], bounds = Some 1\<rparr> =
     (\<lparr>heap = [square_at 1 0 0, square_at 2 5 0, square_at 3 5 0], bounds = Some 1\<rparr>, None, Returned)"
    by (simp add: tick_simps MakeBounds_square d)
  show ?thesis using loop d t s by simp
qed

text \<open>
  Claim C10. When \<^verbatim>\<open>TryLock\<close> yields null, \<^verbatim>\<open>Stop\<close> sets \<^verbatim>\<open>_callback_id\<close> to 0 and leaves
  the episode as it is: no registration is removed.
\<close>

theorem Stop_without_episode_keeps_registration:
  assumes "TryLock alive episode = None"
  shows "Stop sensor alive episode = (sensor\<lparr>callback_id := 0\<rparr>, episode)"
  using assms by (simp add: Stop_def Let_def)

text \<open>An instance: the sensor is registered under id 5, and still is after \<^verbatim>\<open>Stop\<close>.\<close>

theorem Stop_without_episode_keeps_registration_witness:
  "TryLock False (episode_with [(5, callback_with never_crossing returns)]) = None \<and>
   callback_id (vehicle_sensor 5) = 5 \<and>
   registered_ids (episode_with [(5, callback_with never_crossing returns)]) = [5] \<and>
   callback_id (fst (Stop (vehicle_sensor 5) False (episode_with [(5, callback_with never_crossing returns)]))) = 0 \<and>
   registered_ids (snd (Stop (vehicle_sensor 5) False (episode_with [(5, callback_with never_crossing returns)]))) = [5]"
proof -
  have h: "TryLock False (episode_with [(5, callback_with never_crossing returns)]) = None"
    by (simp add: TryLock_def)
  from Stop_without_episode_keeps_registration[OF h, of "vehicle_sensor 5"] h
  show ?thesis by (simp add: vehicle_sensor_def episode_with_def registered_ids_def)
qed

end
